theory Spec2Isabelle
  imports Complex_Main "HOL-Library.Word"
begin

section \<open>Floating-point arithmetic\<close>

text \<open>
  The code computes its times with \<^verbatim>\<open>double\<close> and \<^verbatim>\<open>float\<close>: IEEE 754 binary64
  and binary32, every operation rounded to the nearest value of its type, ties to the
  even significand. A finite value of either type is the real number it denotes, and an
  operation is the exact operation followed by the rounding of its type; the conversion
  of a \<^verbatim>\<open>float\<close> to \<^verbatim>\<open>double\<close> is exact and leaves the number as it is. Each
  operation is rounded on its own, in its own type: no product is fused with a sum and
  no intermediate result is kept in a wider format, as on x86-64 with SSE2.

  \<open>fp_round p emin\<close> rounds to the format with \<open>p\<close> significand bits and least
  normal exponent \<open>emin\<close>. The binade of \<open>x\<close> is the exponent \<open>e\<close> with
  \<open>2 powi e \<le> \<bar>x\<bar> < 2 powi (e + 1)\<close>, found by a search from \<open>0\<close> that covers the
  exponents of both formats; below \<open>emin\<close> the spacing of the subnormal numbers is
  used. The result is the multiple of \<open>2 powi (e - p + 1)\<close> nearest to \<open>x\<close>, the one
  with the even multiplier when two are equally near. Infinities, NaN, the sign of zero
  and overflow (a result beyond the largest finite value of the type) are not modelled.
\<close>

fun binade_search :: "nat \<Rightarrow> int \<Rightarrow> real \<Rightarrow> int" where
  "binade_search 0 e x = e"
| "binade_search (Suc fuel) e x =
     (if x < 2 powi e then binade_search fuel (e - 1) x
      else if 2 powi (e + 1) \<le> x then binade_search fuel (e + 1) x
      else e)"

definition binade :: "real \<Rightarrow> int" where
  "binade x = binade_search 1100 0 \<bar>x\<bar>"

definition round_half_even :: "real \<Rightarrow> int" where
  "round_half_even r =
     (let f = \<lfloor>r\<rfloor> in
      if r - of_int f < 1 / 2 then f
      else if 1 / 2 < r - of_int f then f + 1
      else if even f then f else f + 1)"

definition fp_round :: "nat \<Rightarrow> int \<Rightarrow> real \<Rightarrow> real" where
  "fp_round p emin x =
     (if x = 0 then 0
      else
        let e = max (binade x) emin;
            q = e - int p + 1
        in of_int (round_half_even (x / 2 powi q)) * 2 powi q)"

definition double_of_real :: "real \<Rightarrow> real" where
  "double_of_real x = fp_round 53 (- 1022) x"

definition float_of_real :: "real \<Rightarrow> real" where
  "float_of_real x = fp_round 24 (- 126) x"

definition double_add :: "real \<Rightarrow> real \<Rightarrow> real" where
  "double_add x y = double_of_real (x + y)"

definition double_sub :: "real \<Rightarrow> real \<Rightarrow> real" where
  "double_sub x y = double_of_real (x - y)"

definition double_mul :: "real \<Rightarrow> real \<Rightarrow> real" where
  "double_mul x y = double_of_real (x * y)"

definition double_div :: "real \<Rightarrow> real \<Rightarrow> real" where
  "double_div x y = double_of_real (x / y)"

definition float_div :: "real \<Rightarrow> real \<Rightarrow> real" where
  "float_div x y = float_of_real (x / y)"

section \<open>The client connection state machine (src/src/Client.cpp)\<close>

text \<open>
  The client is embedded by explicit state passing: every member function of
  \<^verbatim>\<open>protocol::Client\<close> becomes a function from the client record to the updated
  record. The times and the send accumulator are \<^verbatim>\<open>double\<close> and the rates and
  timeouts of the configuration are \<^verbatim>\<open>float\<close> (their declarations are in Client.h
  and ClientConfig, which are missing); they are the reals they denote, and the code's
  arithmetic on them is the rounded arithmetic of the previous section. The classes the
  client only calls (\<^verbatim>\<open>Connection\<close>, \<^verbatim>\<open>ClientServerDataBlockSender\<close>,
  \<^verbatim>\<open>ClientServerDataBlockReceiver\<close>, \<^verbatim>\<open>Resolver\<close>) are not part of the
  sources at hand: their states are the type parameters \<open>'c\<close>, \<open>'s\<close>, \<open>'r\<close>, \<open>'v\<close>
  and their member functions are the fields of the record \<open>Collaborators\<close>, so that
  every theorem holds for each behaviour they may have.
\<close>

subsection \<open>Data\<close>

text \<open>
  Modelled from the spec: the enumeration \<^verbatim>\<open>ClientState\<close> is declared in Client.h,
  which is missing; the constructors are the names Client.cpp uses, in the order the spec
  gives (\<open>DISCONNECTED < RESOLVING_HOSTNAME < ... < CONNECTED\<close>). \<open>state_rank\<close> is
  the enumerator's integer value, used where the code compares states or converts one to
  \<^verbatim>\<open>uint32_t\<close>.
\<close>

datatype ClientState =
    CLIENT_STATE_DISCONNECTED
  | CLIENT_STATE_RESOLVING_HOSTNAME
  | CLIENT_STATE_SENDING_CONNECTION_REQUEST
  | CLIENT_STATE_SENDING_CHALLENGE_RESPONSE
  | CLIENT_STATE_SENDING_CLIENT_DATA
  | CLIENT_STATE_READY_FOR_CONNECTION
  | CLIENT_STATE_CONNECTED

fun state_rank :: "ClientState \<Rightarrow> nat" where
  "state_rank CLIENT_STATE_DISCONNECTED = 0"
| "state_rank CLIENT_STATE_RESOLVING_HOSTNAME = 1"
| "state_rank CLIENT_STATE_SENDING_CONNECTION_REQUEST = 2"
| "state_rank CLIENT_STATE_SENDING_CHALLENGE_RESPONSE = 3"
| "state_rank CLIENT_STATE_SENDING_CLIENT_DATA = 4"
| "state_rank CLIENT_STATE_READY_FOR_CONNECTION = 5"
| "state_rank CLIENT_STATE_CONNECTED = 6"

text \<open>
  Modelled from the spec: the enumeration \<^verbatim>\<open>ClientError\<close> of the missing Client.h,
  with the error taxonomy of the spec.
\<close>

datatype ClientError =
    CLIENT_ERROR_NONE
  | CLIENT_ERROR_RESOLVE_HOSTNAME_FAILED
  | CLIENT_ERROR_RESOLVE_HOSTNAME_TIMED_OUT
  | CLIENT_ERROR_INVALID_CONNECT_ADDRESS
  | CLIENT_ERROR_MISSING_RESOLVER
  | CLIENT_ERROR_CONNECTION_REQUEST_DENIED
  | CLIENT_ERROR_CONNECTION_TIMED_OUT
  | CLIENT_ERROR_CONNECTION_ERROR
  | CLIENT_ERROR_DISCONNECTED_FROM_SERVER
  | CLIENT_ERROR_DATA_BLOCK_ERROR

text \<open>
  Modelled from the spec: \<^verbatim>\<open>Address\<close> is a host identifier plus a port, compared
  by value; \<open>Address_default\<close> is the value of the default constructor
  \<^verbatim>\<open>Address()\<close>.
\<close>

datatype Address = Address (GetHost: string) (GetPort: "16 word")

definition Address_default :: Address where
  "Address_default = Address [] 0"

definition SetPort :: "16 word \<Rightarrow> Address \<Rightarrow> Address" where
  "SetPort p a = Address (GetHost a) p"

type_synonym guid = "64 word"
type_synonym bytes = "8 word list"

text \<open>
  Modelled from the spec: the closed set of client/server packet kinds with the payload
  fields of the spec's data model. A Connection packet carries the channel payload only
  and has no GUID field. The source address the transport attaches on receive is paired
  with the packet in the interface's queues.
\<close>

datatype Packet =
    ConnectionRequestPacket guid
  | ConnectionChallengePacket guid guid
  | ConnectionDeniedPacket guid "32 word"
  | ChallengeResponsePacket guid guid
  | ReadyForConnectionPacket guid guid
  | DataBlockFragmentPacket guid guid int int int int bytes
  | DataBlockFragmentAckPacket guid guid int
  | ConnectionPacket bytes
  | DisconnectedPacket guid guid

record TimeBase =
  time :: real
  deltaTime :: real

text \<open>
  Modelled from the spec: the network interface is polled; \<open>inbound\<close> is the in-memory
  queue \<^verbatim>\<open>ReceivePacket()\<close> dequeues from (each packet with its source address)
  and \<open>outbound\<close> records every \<^verbatim>\<open>SendPacket( address, packet )\<close> in order.
\<close>

record NetworkInterface =
  inbound :: "(Address \<times> Packet) list"
  outbound :: "(Address \<times> Packet) list"

definition SendPacket :: "Address \<Rightarrow> Packet \<Rightarrow> NetworkInterface \<Rightarrow> NetworkInterface" where
  "SendPacket a p n = n\<lparr>outbound := outbound n @ [(a, p)]\<rparr>"

definition SendPackets :: "(Address \<times> Packet) list \<Rightarrow> NetworkInterface \<Rightarrow> NetworkInterface" where
  "SendPackets ps n = n\<lparr>outbound := outbound n @ ps\<rparr>"

datatype ResolveStatus = RESOLVE_IN_PROGRESS | RESOLVE_SUCCEEDED | RESOLVE_FAILED

record ResolveEntry =
  status :: ResolveStatus
  result_address0 :: Address

record ClientServerInfo =
  info_address :: Address
  info_clientGuid :: guid
  info_serverGuid :: guid

record ClientConfig =
  clientData :: bool
  connectingSendRate :: real
  connectedSendRate :: real
  connectingTimeOut :: real
  connectedTimeOut :: real
  defaultServerPort :: "16 word"

text \<open>
  The member functions of the missing classes, the two build-time settings
  (\<^verbatim>\<open>PROTOCOL_USE_RESOLVER\<close>, \<^verbatim>\<open>MaxHostName\<close>) and the address parser
  (\<^verbatim>\<open>Address( hostname ).IsValid()\<close>). The data block sender and receiver hold
  the network interface through \<^verbatim>\<open>SetInfo\<close>, so the calls that may send return
  the packets they send.
\<close>

record ('c, 's, 'r, 'v) Collaborators =
  conn_Reset :: "'c \<Rightarrow> 'c"
  conn_Update :: "TimeBase \<Rightarrow> 'c \<Rightarrow> 'c"
  conn_HasError :: "'c \<Rightarrow> bool"
  conn_ReadPacket :: "bytes \<Rightarrow> 'c \<Rightarrow> bool \<times> 'c"
  conn_WritePacket :: "'c \<Rightarrow> bytes \<times> 'c"
  snd_Clear :: "'s \<Rightarrow> 's"
  snd_SetInfo :: "ClientServerInfo \<Rightarrow> 's \<Rightarrow> 's"
  snd_ProcessAck :: "int \<Rightarrow> 's \<Rightarrow> 's"
  snd_SendCompleted :: "'s \<Rightarrow> bool"
  snd_Update :: "TimeBase \<Rightarrow> 's \<Rightarrow> 's \<times> (Address \<times> Packet) list"
  rcv_Clear :: "'r \<Rightarrow> 'r"
  rcv_SetInfo :: "ClientServerInfo \<Rightarrow> 'r \<Rightarrow> 'r"
  rcv_ProcessFragment :: "int \<Rightarrow> int \<Rightarrow> int \<Rightarrow> int \<Rightarrow> bytes \<Rightarrow> 'r \<Rightarrow> 'r \<times> (Address \<times> Packet) list"
  rcv_IsError :: "'r \<Rightarrow> bool"
  rcv_GetError :: "'r \<Rightarrow> 32 word"
  res_Resolve :: "string \<Rightarrow> 'v \<Rightarrow> 'v"
  res_Update :: "TimeBase \<Rightarrow> 'v \<Rightarrow> 'v"
  res_GetEntry :: "string \<Rightarrow> 'v \<Rightarrow> ResolveEntry option"
  net_Update :: "TimeBase \<Rightarrow> NetworkInterface \<Rightarrow> NetworkInterface"
  parse_address :: "string \<Rightarrow> Address option"
  PROTOCOL_USE_RESOLVER :: bool
  MaxHostName :: nat

text \<open>
  The members of \<^verbatim>\<open>Client\<close>. A null \<^verbatim>\<open>m_config.resolver\<close>,
  \<^verbatim>\<open>m_dataBlockSender\<close> or \<^verbatim>\<open>m_dataBlockReceiver\<close> is \<open>None\<close>.
\<close>

record ('c, 's, 'r, 'v) Client =
  m_config :: ClientConfig
  m_resolver :: "'v option"
  m_networkInterface :: NetworkInterface
  m_connection :: 'c
  m_dataBlockSender :: "'s option"
  m_dataBlockReceiver :: "'r option"
  m_state :: ClientState
  m_error :: ClientError
  m_extendedError :: "32 word"
  m_address :: Address
  m_hostname :: string
  m_clientGuid :: guid
  m_serverGuid :: guid
  m_lastPacketReceiveTime :: real
  m_accumulator :: real
  m_timeBase :: TimeBase

text \<open>
  What the code does where C++ leaves the behaviour undefined or an assertion fails: a
  call through the null resolver pointer, a failed \<^verbatim>\<open>PROTOCOL_ASSERT\<close> or
  \<^verbatim>\<open>CORE_ASSERT\<close>, and a read past the end of an array.
\<close>

datatype Fault = NullResolverDereference | AssertionFailed | ArrayIndexOutOfRange

subsection \<open>Operations\<close>

definition ClearStateData :: "('c, 's, 'r, 'v) Client \<Rightarrow> ('c, 's, 'r, 'v) Client" where
  "ClearStateData c =
     c\<lparr>m_hostname := [], m_address := Address_default, m_clientGuid := 0, m_serverGuid := 0\<rparr>"

definition ClearError :: "('c, 's, 'r, 'v) Client \<Rightarrow> ('c, 's, 'r, 'v) Client" where
  "ClearError c = c\<lparr>m_error := CLIENT_ERROR_NONE, m_extendedError := 0\<rparr>"

definition IsDisconnected :: "('c, 's, 'r, 'v) Client \<Rightarrow> bool" where
  "IsDisconnected c = (m_state c = CLIENT_STATE_DISCONNECTED)"

definition IsConnected :: "('c, 's, 'r, 'v) Client \<Rightarrow> bool" where
  "IsConnected c = (m_state c = CLIENT_STATE_CONNECTED)"

definition IsConnecting :: "('c, 's, 'r, 'v) Client \<Rightarrow> bool" where
  "IsConnecting c =
     (state_rank (m_state c) > state_rank CLIENT_STATE_DISCONNECTED \<and>
      state_rank (m_state c) < state_rank CLIENT_STATE_CONNECTED)"

definition HasError :: "('c, 's, 'r, 'v) Client \<Rightarrow> bool" where
  "HasError c = (m_error c \<noteq> CLIENT_ERROR_NONE)"

definition Disconnect ::
  "('c, 's, 'r, 'v) Collaborators \<Rightarrow> ('c, 's, 'r, 'v) Client \<Rightarrow> ('c, 's, 'r, 'v) Client" where
  "Disconnect env c =
     (if IsDisconnected c then c
      else
        let packet = DisconnectedPacket (m_clientGuid c) (m_serverGuid c);
            c1 = c\<lparr>m_networkInterface := SendPacket (m_address c) packet (m_networkInterface c)\<rparr>;
            c2 = c1\<lparr>m_connection := conn_Reset env (m_connection c1)\<rparr>;
            c3 = ClearStateData c2;
            c4 = c3\<lparr>m_state := CLIENT_STATE_DISCONNECTED, m_address := Address_default,
                    m_hostname := []\<rparr>;
            c5 = c4\<lparr>m_dataBlockSender := map_option (snd_Clear env) (m_dataBlockSender c4)\<rparr>
        in c5\<lparr>m_dataBlockReceiver := map_option (rcv_Clear env) (m_dataBlockReceiver c5)\<rparr>)"

definition DisconnectAndSetError ::
  "('c, 's, 'r, 'v) Collaborators \<Rightarrow> ClientError \<Rightarrow> 32 word \<Rightarrow>
   ('c, 's, 'r, 'v) Client \<Rightarrow> ('c, 's, 'r, 'v) Client" where
  "DisconnectAndSetError env error extendedError c =
     (Disconnect env c)\<lparr>m_error := error, m_extendedError := extendedError\<rparr>"

text \<open>
  \<^verbatim>\<open>Connect( const Address & )\<close>. The fresh value of \<^verbatim>\<open>generate_guid()\<close> is
  the argument \<open>new_guid\<close>.
\<close>

definition Connect_address ::
  "('c, 's, 'r, 'v) Collaborators \<Rightarrow> guid \<Rightarrow> Address \<Rightarrow>
   ('c, 's, 'r, 'v) Client \<Rightarrow> ('c, 's, 'r, 'v) Client" where
  "Connect_address env new_guid address c =
     (ClearError (Disconnect env c))
       \<lparr>m_state := CLIENT_STATE_SENDING_CONNECTION_REQUEST, m_address := address,
        m_clientGuid := new_guid\<rparr>"

text \<open>
  \<^verbatim>\<open>Connect( const char * )\<close>. With the resolver compiled in and no resolver
  configured, the code calls \<^verbatim>\<open>DisconnectAndSetError\<close> and goes on to
  \<^verbatim>\<open>m_config.resolver->Resolve( hostname )\<close>: the call through the null pointer
  is the fault \<open>NullResolverDereference\<close>.
\<close>

definition Connect_hostname ::
  "('c, 's, 'r, 'v) Collaborators \<Rightarrow> guid \<Rightarrow> string \<Rightarrow>
   ('c, 's, 'r, 'v) Client \<Rightarrow> Fault + ('c, 's, 'r, 'v) Client" where
  "Connect_hostname env new_guid hostname c =
     (let c1 = ClearError (Disconnect env c) in
      case parse_address env hostname of
        Some address \<Rightarrow> Inr (Connect_address env new_guid address c1)
      | None \<Rightarrow>
          if PROTOCOL_USE_RESOLVER env then
            let c2 = (if m_resolver c1 = None
                      then DisconnectAndSetError env CLIENT_ERROR_MISSING_RESOLVER 0 c1
                      else c1)
            in (case m_resolver c2 of
                  None \<Rightarrow> Inl NullResolverDereference
                | Some r \<Rightarrow>
                    Inr (c2\<lparr>m_resolver := Some (res_Resolve env hostname r),
                            m_state := CLIENT_STATE_RESOLVING_HOSTNAME,
                            m_lastPacketReceiveTime := time (m_timeBase c2),
                            m_hostname := take (MaxHostName env - 1) hostname\<rparr>))
          else Inr (DisconnectAndSetError env CLIENT_ERROR_INVALID_CONNECT_ADDRESS 0 c1))"

text \<open>
  \<^verbatim>\<open>UpdateResolver\<close>, compiled only with \<^verbatim>\<open>PROTOCOL_USE_RESOLVER\<close>.
\<close>

definition UpdateResolver ::
  "('c, 's, 'r, 'v) Collaborators \<Rightarrow> guid \<Rightarrow>
   ('c, 's, 'r, 'v) Client \<Rightarrow> Fault + ('c, 's, 'r, 'v) Client" where
  "UpdateResolver env new_guid c =
     (let c1 = c\<lparr>m_resolver := map_option (res_Update env (m_timeBase c)) (m_resolver c)\<rparr> in
      if m_state c1 \<noteq> CLIENT_STATE_RESOLVING_HOSTNAME then Inr c1
      else
        case m_resolver c1 of
          None \<Rightarrow> Inl NullResolverDereference
        | Some r \<Rightarrow>
            (case res_GetEntry env (m_hostname c1) r of
               None \<Rightarrow> Inr (DisconnectAndSetError env CLIENT_ERROR_RESOLVE_HOSTNAME_FAILED 0 c1)
             | Some entry \<Rightarrow>
                 if status entry = RESOLVE_FAILED
                 then Inr (DisconnectAndSetError env CLIENT_ERROR_RESOLVE_HOSTNAME_FAILED 0 c1)
                 else if status entry = RESOLVE_SUCCEEDED
                 then
                   let address = result_address0 entry;
                       address' = (if GetPort address = 0
                                   then SetPort (defaultServerPort (m_config c1)) address
                                   else address)
                   in Inr (Connect_address env new_guid address' c1)
                 else Inr c1))"

definition UpdateConnection ::
  "('c, 's, 'r, 'v) Collaborators \<Rightarrow> ('c, 's, 'r, 'v) Client \<Rightarrow> ('c, 's, 'r, 'v) Client" where
  "UpdateConnection env c =
     (if m_state c = CLIENT_STATE_CONNECTED then
        let c1 = c\<lparr>m_connection := conn_Update env (m_timeBase c) (m_connection c)\<rparr> in
        if conn_HasError env (m_connection c1)
        then DisconnectAndSetError env CLIENT_ERROR_CONNECTION_ERROR 0 c1
        else c1
      else c)"

text \<open>
  \<^verbatim>\<open>UpdateSendPackets\<close>. The accumulator is advanced and reduced in \<^verbatim>\<open>double\<close>;
  \<^verbatim>\<open>timeBetweenPackets\<close> is the \<^verbatim>\<open>double\<close> quotient \<^verbatim>\<open>1.0 / rate\<close> stored in
  a \<^verbatim>\<open>float\<close>, so it is rounded twice. A send rate of zero makes the quotient
  infinite in the code, an interval the accumulator never reaches; the model writes that
  case out, since division by zero is \<open>0\<close> in HOL.
\<close>

definition UpdateSendPackets ::
  "('c, 's, 'r, 'v) Collaborators \<Rightarrow> ('c, 's, 'r, 'v) Client \<Rightarrow> ('c, 's, 'r, 'v) Client" where
  "UpdateSendPackets env c =
     (if state_rank (m_state c) < state_rank CLIENT_STATE_SENDING_CONNECTION_REQUEST then c
      else
        let c1 = c\<lparr>m_accumulator := double_add (m_accumulator c) (deltaTime (m_timeBase c))\<rparr>;
            rate = (if IsConnected c1 then connectedSendRate (m_config c1)
                    else connectingSendRate (m_config c1));
            timeBetweenPackets = float_of_real (double_div 1 rate)
        in
          if rate \<noteq> 0 \<and> m_accumulator c1 \<ge> timeBetweenPackets then
            let c2 = c1\<lparr>m_accumulator := double_sub (m_accumulator c1) timeBetweenPackets\<rparr>;
                send = (\<lambda>packet. c2\<lparr>m_networkInterface :=
                          SendPacket (m_address c2) packet (m_networkInterface c2)\<rparr>)
            in
              case m_state c2 of
                CLIENT_STATE_SENDING_CONNECTION_REQUEST \<Rightarrow>
                  send (ConnectionRequestPacket (m_clientGuid c2))
              | CLIENT_STATE_SENDING_CHALLENGE_RESPONSE \<Rightarrow>
                  send (ChallengeResponsePacket (m_clientGuid c2) (m_serverGuid c2))
              | CLIENT_STATE_READY_FOR_CONNECTION \<Rightarrow>
                  send (ReadyForConnectionPacket (m_clientGuid c2) (m_serverGuid c2))
              | CLIENT_STATE_CONNECTED \<Rightarrow>
                  (let (payload, conn) = conn_WritePacket env (m_connection c2) in
                   c2\<lparr>m_connection := conn,
                      m_networkInterface :=
                        SendPacket (m_address c2) (ConnectionPacket payload) (m_networkInterface c2)\<rparr>)
              | _ \<Rightarrow> c2
          else c1)"

definition UpdateNetworkInterface ::
  "('c, 's, 'r, 'v) Collaborators \<Rightarrow> ('c, 's, 'r, 'v) Client \<Rightarrow> ('c, 's, 'r, 'v) Client" where
  "UpdateNetworkInterface env c =
     c\<lparr>m_networkInterface := net_Update env (m_timeBase c) (m_networkInterface c)\<rparr>"

text \<open>
  The three packet handlers. Each takes the fields of the packet it is called with; the
  source address is \<^verbatim>\<open>packet->GetAddress()\<close>.
\<close>

definition ProcessDisconnected ::
  "('c, 's, 'r, 'v) Collaborators \<Rightarrow> Address \<Rightarrow> guid \<Rightarrow> guid \<Rightarrow>
   ('c, 's, 'r, 'v) Client \<Rightarrow> ('c, 's, 'r, 'v) Client" where
  "ProcessDisconnected env address clientGuid serverGuid c =
     (if address \<noteq> m_address c then c
      else if clientGuid \<noteq> m_clientGuid c then c
      else if serverGuid \<noteq> m_serverGuid c then c
      else DisconnectAndSetError env CLIENT_ERROR_DISCONNECTED_FROM_SERVER 0 c)"

definition ProcessDataBlockFragment ::
  "('c, 's, 'r, 'v) Collaborators \<Rightarrow> guid \<Rightarrow> guid \<Rightarrow> int \<Rightarrow> int \<Rightarrow> int \<Rightarrow> int \<Rightarrow> bytes \<Rightarrow>
   ('c, 's, 'r, 'v) Client \<Rightarrow> ('c, 's, 'r, 'v) Client" where
  "ProcessDataBlockFragment env clientGuid serverGuid blockSize numFragments fragmentId
       fragmentBytes fragmentData c =
     (if clientGuid \<noteq> m_clientGuid c then c
      else if serverGuid \<noteq> m_serverGuid c then c
      else
        case m_dataBlockReceiver c of
          None \<Rightarrow> c
        | Some r \<Rightarrow>
            let (r', sent) = rcv_ProcessFragment env blockSize numFragments fragmentId
                               fragmentBytes fragmentData r;
                c1 = c\<lparr>m_dataBlockReceiver := Some r',
                       m_networkInterface := SendPackets sent (m_networkInterface c)\<rparr>
            in if rcv_IsError env r'
               then DisconnectAndSetError env CLIENT_ERROR_DATA_BLOCK_ERROR (rcv_GetError env r') c1
               else c1)"

definition ProcessDataBlockFragmentAck ::
  "('c, 's, 'r, 'v) Collaborators \<Rightarrow> guid \<Rightarrow> guid \<Rightarrow> int \<Rightarrow>
   ('c, 's, 'r, 'v) Client \<Rightarrow> ('c, 's, 'r, 'v) Client" where
  "ProcessDataBlockFragmentAck env clientGuid serverGuid fragmentId c =
     (if clientGuid \<noteq> m_clientGuid c then c
      else if serverGuid \<noteq> m_serverGuid c then c
      else
        case m_dataBlockSender c of
          None \<Rightarrow> c
        | Some s \<Rightarrow> c\<lparr>m_dataBlockSender := Some (snd_ProcessAck env fragmentId s)\<rparr>)"

text \<open>
  The \<^verbatim>\<open>switch ( m_state )\<close> of \<^verbatim>\<open>UpdateReceivePackets\<close>, one function for each
  \<^verbatim>\<open>case\<close> label; the last equation of each is the packet types the case ignores.
\<close>

fun receive_SENDING_CONNECTION_REQUEST ::
  "('c, 's, 'r, 'v) Collaborators \<Rightarrow> Address \<Rightarrow> Packet \<Rightarrow>
   ('c, 's, 'r, 'v) Client \<Rightarrow> ('c, 's, 'r, 'v) Client" where
  "receive_SENDING_CONNECTION_REQUEST env a (ConnectionChallengePacket clientGuid serverGuid) c =
     (if a = m_address c \<and> clientGuid = m_clientGuid c then
        let c1 = c\<lparr>m_state := CLIENT_STATE_SENDING_CHALLENGE_RESPONSE,
                   m_serverGuid := serverGuid,
                   m_lastPacketReceiveTime := time (m_timeBase c)\<rparr>;
            info = \<lparr>info_address = m_address c1, info_clientGuid = m_clientGuid c1,
                    info_serverGuid = m_serverGuid c1\<rparr>;
            c2 = c1\<lparr>m_dataBlockSender := map_option (snd_SetInfo env info) (m_dataBlockSender c1)\<rparr>
        in c2\<lparr>m_dataBlockReceiver := map_option (rcv_SetInfo env info) (m_dataBlockReceiver c2)\<rparr>
      else c)"
| "receive_SENDING_CONNECTION_REQUEST env a (ConnectionDeniedPacket clientGuid reason) c =
     (if a = m_address c \<and> clientGuid = m_clientGuid c
      then DisconnectAndSetError env CLIENT_ERROR_CONNECTION_REQUEST_DENIED reason c
      else c)"
| "receive_SENDING_CONNECTION_REQUEST env a _ c = c"

fun receive_SENDING_CHALLENGE_RESPONSE ::
  "('c, 's, 'r, 'v) Collaborators \<Rightarrow> Address \<Rightarrow> Packet \<Rightarrow>
   ('c, 's, 'r, 'v) Client \<Rightarrow> ('c, 's, 'r, 'v) Client" where
  "receive_SENDING_CHALLENGE_RESPONSE env a (DataBlockFragmentPacket cg sg bs nf fid fb fd) c =
     ProcessDataBlockFragment env cg sg bs nf fid fb fd c"
| "receive_SENDING_CHALLENGE_RESPONSE env a (ReadyForConnectionPacket clientGuid serverGuid) c =
     (if a = m_address c \<and> clientGuid = m_clientGuid c \<and> serverGuid = m_serverGuid c then
        if \<not> clientData (m_config c)
        then c\<lparr>m_state := CLIENT_STATE_READY_FOR_CONNECTION,
               m_lastPacketReceiveTime := time (m_timeBase c)\<rparr>
        else c\<lparr>m_state := CLIENT_STATE_SENDING_CLIENT_DATA,
               m_lastPacketReceiveTime := time (m_timeBase c)\<rparr>
      else c)"
| "receive_SENDING_CHALLENGE_RESPONSE env a _ c = c"

fun receive_SENDING_CLIENT_DATA ::
  "('c, 's, 'r, 'v) Collaborators \<Rightarrow> Address \<Rightarrow> Packet \<Rightarrow>
   ('c, 's, 'r, 'v) Client \<Rightarrow> ('c, 's, 'r, 'v) Client" where
  "receive_SENDING_CLIENT_DATA env a (DataBlockFragmentPacket cg sg bs nf fid fb fd) c =
     ProcessDataBlockFragment env cg sg bs nf fid fb fd c"
| "receive_SENDING_CLIENT_DATA env a (DataBlockFragmentAckPacket cg sg fid) c =
     ProcessDataBlockFragmentAck env cg sg fid c"
| "receive_SENDING_CLIENT_DATA env a _ c = c"

fun receive_READY_FOR_CONNECTION_or_CONNECTED ::
  "('c, 's, 'r, 'v) Collaborators \<Rightarrow> Address \<Rightarrow> Packet \<Rightarrow>
   ('c, 's, 'r, 'v) Client \<Rightarrow> ('c, 's, 'r, 'v) Client" where
  "receive_READY_FOR_CONNECTION_or_CONNECTED env a (DataBlockFragmentPacket cg sg bs nf fid fb fd) c =
     ProcessDataBlockFragment env cg sg bs nf fid fb fd c"
| "receive_READY_FOR_CONNECTION_or_CONNECTED env a (ConnectionPacket payload) c =
     (let c1 = (if m_state c = CLIENT_STATE_READY_FOR_CONNECTION
                then c\<lparr>m_state := CLIENT_STATE_CONNECTED\<rparr> else c);
          (result, conn) = conn_ReadPacket env payload (m_connection c1);
          c2 = c1\<lparr>m_connection := conn\<rparr>
      in if result then c2\<lparr>m_lastPacketReceiveTime := time (m_timeBase c2)\<rparr> else c2)"
| "receive_READY_FOR_CONNECTION_or_CONNECTED env a _ c = c"

text \<open>
  The body of the \<^verbatim>\<open>while ( true )\<close> loop of \<^verbatim>\<open>UpdateReceivePackets\<close> for one
  received packet, and the loop: it dequeues until the interface has no packet left.
\<close>

fun ReceivePacket_body ::
  "('c, 's, 'r, 'v) Collaborators \<Rightarrow> Address \<times> Packet \<Rightarrow>
   ('c, 's, 'r, 'v) Client \<Rightarrow> ('c, 's, 'r, 'v) Client" where
  "ReceivePacket_body env (a, DisconnectedPacket clientGuid serverGuid) c =
     ProcessDisconnected env a clientGuid serverGuid c"
| "ReceivePacket_body env (a, packet) c =
     (case m_state c of
        CLIENT_STATE_SENDING_CONNECTION_REQUEST \<Rightarrow> receive_SENDING_CONNECTION_REQUEST env a packet c
      | CLIENT_STATE_SENDING_CHALLENGE_RESPONSE \<Rightarrow> receive_SENDING_CHALLENGE_RESPONSE env a packet c
      | CLIENT_STATE_SENDING_CLIENT_DATA \<Rightarrow> receive_SENDING_CLIENT_DATA env a packet c
      | CLIENT_STATE_READY_FOR_CONNECTION \<Rightarrow> receive_READY_FOR_CONNECTION_or_CONNECTED env a packet c
      | CLIENT_STATE_CONNECTED \<Rightarrow> receive_READY_FOR_CONNECTION_or_CONNECTED env a packet c
      | _ \<Rightarrow> c)"

fun ReceivePackets_loop ::
  "('c, 's, 'r, 'v) Collaborators \<Rightarrow> (Address \<times> Packet) list \<Rightarrow>
   ('c, 's, 'r, 'v) Client \<Rightarrow> ('c, 's, 'r, 'v) Client" where
  "ReceivePackets_loop env [] c = c"
| "ReceivePackets_loop env (packet # queue) c =
     ReceivePackets_loop env queue
       (ReceivePacket_body env packet
          (c\<lparr>m_networkInterface := (m_networkInterface c)\<lparr>inbound := queue\<rparr>\<rparr>))"

definition UpdateReceivePackets ::
  "('c, 's, 'r, 'v) Collaborators \<Rightarrow> ('c, 's, 'r, 'v) Client \<Rightarrow> ('c, 's, 'r, 'v) Client" where
  "UpdateReceivePackets env c = ReceivePackets_loop env (inbound (m_networkInterface c)) c"

definition UpdateSendClientData ::
  "('c, 's, 'r, 'v) Collaborators \<Rightarrow>
   ('c, 's, 'r, 'v) Client \<Rightarrow> Fault + ('c, 's, 'r, 'v) Client" where
  "UpdateSendClientData env c =
     (if m_state c \<noteq> CLIENT_STATE_SENDING_CLIENT_DATA then Inr c
      else
        case m_dataBlockSender c of
          None \<Rightarrow> Inl AssertionFailed
        | Some s \<Rightarrow>
            if snd_SendCompleted env s
            then Inr (c\<lparr>m_state := CLIENT_STATE_READY_FOR_CONNECTION\<rparr>)
            else
              let (s', sent) = snd_Update env (m_timeBase c) s in
              Inr (c\<lparr>m_dataBlockSender := Some s',
                      m_networkInterface := SendPackets sent (m_networkInterface c)\<rparr>))"

text \<open>
  \<^verbatim>\<open>UpdateTimeout\<close>. The local \<^verbatim>\<open>timeout\<close> is a \<^verbatim>\<open>double\<close>, so the sum
  \<^verbatim>\<open>m_lastPacketReceiveTime + timeout\<close> is a \<^verbatim>\<open>double\<close> addition, rounded before it
  is compared with the time. The second argument of \<^verbatim>\<open>DisconnectAndSetError\<close> is
  \<^verbatim>\<open>m_state\<close> converted to \<^verbatim>\<open>uint32_t\<close>, read before the call disconnects.
\<close>

definition UpdateTimeout ::
  "('c, 's, 'r, 'v) Collaborators \<Rightarrow> ('c, 's, 'r, 'v) Client \<Rightarrow> ('c, 's, 'r, 'v) Client" where
  "UpdateTimeout env c =
     (if IsDisconnected c then c
      else
        let timeout = (if IsConnected c then connectedTimeOut (m_config c)
                       else connectingTimeOut (m_config c))
        in if double_add (m_lastPacketReceiveTime c) timeout < time (m_timeBase c)
           then DisconnectAndSetError env CLIENT_ERROR_CONNECTION_TIMED_OUT
                  (of_nat (state_rank (m_state c))) c
           else c)"

definition bind_fault :: "Fault + 'a \<Rightarrow> ('a \<Rightarrow> Fault + 'b) \<Rightarrow> Fault + 'b" where
  "bind_fault r f = (case r of Inl e \<Rightarrow> Inl e | Inr x \<Rightarrow> f x)"

definition Update ::
  "('c, 's, 'r, 'v) Collaborators \<Rightarrow> guid \<Rightarrow> TimeBase \<Rightarrow>
   ('c, 's, 'r, 'v) Client \<Rightarrow> Fault + ('c, 's, 'r, 'v) Client" where
  "Update env new_guid timeBase c =
     bind_fault
       (if PROTOCOL_USE_RESOLVER env
        then UpdateResolver env new_guid (c\<lparr>m_timeBase := timeBase\<rparr>)
        else Inr (c\<lparr>m_timeBase := timeBase\<rparr>))
       (\<lambda>c1.
          bind_fault
            (UpdateSendClientData env
               (UpdateReceivePackets env
                  (UpdateNetworkInterface env
                     (UpdateSendPackets env
                        (UpdateConnection env c1)))))
            (\<lambda>c2. Inr (UpdateTimeout env c2)))"

section \<open>The lockstep input pipeline (src/unnamed/part_000)\<close>

subsection \<open>The playout delay buffer\<close>

text \<open>
  \<^verbatim>\<open>LockstepPlayoutDelayBuffer\<close>. The buffer never inspects an input, so the model is
  polymorphic in the type of the queued items. \<^verbatim>\<open>core::Queue\<close> is not part of the
  sources at hand. Modelled from the spec: a FIFO of per-frame inputs, \<^verbatim>\<open>push_back\<close>
  appends at the end and \<^verbatim>\<open>pop_front\<close> removes the first item. Times are
  \<^verbatim>\<open>double\<close>; \<^verbatim>\<open>PlayoutDelay\<close> is the \<^verbatim>\<open>float\<close> constant \<^verbatim>\<open>0.25f\<close>.
\<close>

record 'a LockstepPlayoutDelayBuffer =
  stopped :: bool
  start_time :: real
  most_recent_input :: "16 word"
  frame :: "64 word"
  input_queue :: "'a list"

definition LockstepPlayoutDelayBuffer_init :: "'a LockstepPlayoutDelayBuffer" where
  "LockstepPlayoutDelayBuffer_init =
     \<lparr>stopped = True, start_time = 0, most_recent_input = 0, frame = 0, input_queue = []\<rparr>"

definition PlayoutDelay :: real where
  "PlayoutDelay = 0.25"

text \<open>
  The body of the \<^verbatim>\<open>for\<close> loop of \<^verbatim>\<open>AddInputs\<close> at index \<open>i\<close>. The sequence
  numbers are \<^verbatim>\<open>uint16_t\<close>: the \<^verbatim>\<open>int\<close> results of \<^verbatim>\<open>sequence - num_inputs\<close>,
  \<^verbatim>\<open>first_input_sequence + i\<close> and \<^verbatim>\<open>sequence + 1\<close> are truncated to 16 bits.
\<close>

definition AddInputs_body ::
  "'a list \<Rightarrow> 16 word \<Rightarrow> 'a LockstepPlayoutDelayBuffer \<Rightarrow> nat \<Rightarrow> 'a LockstepPlayoutDelayBuffer" where
  "AddInputs_body inputs first_input_sequence b i =
     (let sequence = first_input_sequence + of_nat i in
      if sequence = most_recent_input b
      then b\<lparr>most_recent_input := sequence + 1, input_queue := input_queue b @ [inputs ! i]\<rparr>
      else b)"

text \<open>
  \<^verbatim>\<open>AddInputs\<close>. \<^verbatim>\<open>CORE_ASSERT( num_inputs > 0 )\<close> failing is the fault
  \<open>AssertionFailed\<close>; \<open>inputs\<close> is the caller's array, and a count beyond its length
  (a read past the array in C++) is the fault \<open>ArrayIndexOutOfRange\<close>.
\<close>

definition AddInputs ::
  "real \<Rightarrow> 16 word \<Rightarrow> int \<Rightarrow> 'a list \<Rightarrow> 'a LockstepPlayoutDelayBuffer \<Rightarrow>
   Fault + 'a LockstepPlayoutDelayBuffer" where
  "AddInputs t sequence num_inputs inputs b =
     (if \<not> num_inputs > 0 then Inl AssertionFailed
      else if int (length inputs) < num_inputs then Inl ArrayIndexOutOfRange
      else
        let b1 = (if stopped b then b\<lparr>start_time := t, stopped := False\<rparr> else b);
            first_input_sequence = sequence - word_of_int num_inputs
        in Inr (foldl (AddInputs_body inputs first_input_sequence) b1 [0..<nat num_inputs]))"

text \<open>
  \<^verbatim>\<open>GetFrames\<close>. \<open>frame_time\<close> is the right-hand side of the loop's first
  comparison, \<^verbatim>\<open>start_time + ( frame + 0.5 ) * ( 1.0f / 60.0f ) + PlayoutDelay\<close>, as
  C++ evaluates it: \<^verbatim>\<open>frame\<close> is converted from \<^verbatim>\<open>uint64_t\<close> to \<^verbatim>\<open>double\<close>,
  \<^verbatim>\<open>1.0f / 60.0f\<close> is a \<^verbatim>\<open>float\<close> division, and the two additions and the
  multiplication around it are \<^verbatim>\<open>double\<close> operations, each rounded. \<open>frame_due\<close>
  is the negation of the \<^verbatim>\<open>break\<close> condition. The first argument of \<open>GetFrames_loop\<close> counts the iterations left of
  \<^verbatim>\<open>for ( int i = 0; i < MaxSimFrames; ++i )\<close>; the list \<open>frame_input\<close> holds
  \<^verbatim>\<open>frame_input[0..num_frames)\<close>, so \<^verbatim>\<open>num_frames\<close> is its length.
  \<^verbatim>\<open>MaxSimFrames\<close> is declared in a header that is missing and is a parameter.
\<close>

definition frame_time :: "real \<Rightarrow> 64 word \<Rightarrow> real" where
  "frame_time start f =
     double_add
       (double_add start
          (double_mul (double_add (double_of_real (real (unat f))) 0.5) (float_div 1 60)))
       PlayoutDelay"

definition frame_due :: "real \<Rightarrow> 'a LockstepPlayoutDelayBuffer \<Rightarrow> bool" where
  "frame_due t b = (\<not> t < frame_time (start_time b) (frame b))"

fun GetFrames_loop ::
  "nat \<Rightarrow> real \<Rightarrow> 'a LockstepPlayoutDelayBuffer \<Rightarrow> 'a list \<Rightarrow>
   'a LockstepPlayoutDelayBuffer \<times> 'a list" where
  "GetFrames_loop 0 t b frame_input = (b, frame_input)"
| "GetFrames_loop (Suc k) t b frame_input =
     (if \<not> frame_due t b then (b, frame_input)
      else
        case input_queue b of
          [] \<Rightarrow> (b, frame_input)
        | x # queue \<Rightarrow>
            GetFrames_loop k t (b\<lparr>input_queue := queue, frame := frame b + 1\<rparr>) (frame_input @ [x]))"

definition GetFrames ::
  "int \<Rightarrow> real \<Rightarrow> 'a LockstepPlayoutDelayBuffer \<Rightarrow> 'a LockstepPlayoutDelayBuffer \<times> 'a list" where
  "GetFrames MaxSimFrames t b =
     (if stopped b then (b, []) else GetFrames_loop (nat MaxSimFrames) t b [])"

definition num_frames :: "'a LockstepPlayoutDelayBuffer \<times> 'a list \<Rightarrow> nat" where
  "num_frames r = length (snd r)"

subsection \<open>Input packets and their serialization\<close>

text \<open>
  \<^verbatim>\<open>game::Input\<close> is declared in a header that is missing; it is modelled with the
  six flags the serializer reads and writes, and \<^verbatim>\<open>operator !=\<close> as inequality of
  these flags.
\<close>

datatype Input = Input (left: bool) (right: bool) (up: bool) (down: bool) (push: bool) (pull: bool)

definition MaxInputs :: int where
  "MaxInputs = 256"

definition MaxPacketSize :: nat where
  "MaxPacketSize = 1024"

definition LeftPort :: int where
  "LeftPort = 1000"

definition RightPort :: int where
  "RightPort = 1001"

record LockstepInputPacket =
  sequence :: "16 word"
  num_inputs :: int
  inputs :: "Input list"

text \<open>
  Modelled from the spec: the bit streams of protocol/Stream.h are missing. A stream is a
  list of bits; a boolean takes one bit, a 16-bit word sixteen, and an integer bounded by
  \<open>lo\<close> and \<open>hi\<close> takes \<open>bits_required lo hi\<close> bits, the least number of bits
  that distinguish \<open>hi - lo + 1\<close> values, and is written as its offset from \<open>lo\<close>.
  Bits are written least significant first. Reading past the end of the stream is the
  stream's overflow, here \<open>None\<close>; writing a bounded integer outside its bounds fails
  the macro's assertion, here \<open>None\<close> as well.
\<close>

type_synonym bitstream = "bool list"

fun bit_length :: "nat \<Rightarrow> nat" where
  "bit_length n = (if n = 0 then 0 else Suc (bit_length (n div 2)))"

definition bits_required :: "int \<Rightarrow> int \<Rightarrow> nat" where
  "bits_required lo hi = bit_length (nat (hi - lo))"

definition write_bits :: "nat \<Rightarrow> nat \<Rightarrow> bitstream" where
  "write_bits n v = map (bit v) [0..<n]"

definition read_bits :: "nat \<Rightarrow> bitstream \<Rightarrow> (nat \<times> bitstream) option" where
  "read_bits n s =
     (if length s < n then None else Some (horner_sum of_bool 2 (take n s), drop n s))"

definition write_bool :: "bool \<Rightarrow> bitstream" where
  "write_bool v = [v]"

definition read_bool :: "bitstream \<Rightarrow> (bool \<times> bitstream) option" where
  "read_bool s = (case s of [] \<Rightarrow> None | v # s' \<Rightarrow> Some (v, s'))"

definition write_uint16 :: "16 word \<Rightarrow> bitstream" where
  "write_uint16 v = write_bits 16 (unat v)"

definition read_uint16 :: "bitstream \<Rightarrow> (16 word \<times> bitstream) option" where
  "read_uint16 s = map_option (\<lambda>(v, s'). (of_nat v, s')) (read_bits 16 s)"

definition write_int :: "int \<Rightarrow> int \<Rightarrow> int \<Rightarrow> bitstream option" where
  "write_int lo hi v =
     (if v < lo \<or> hi < v then None
      else Some (write_bits (bits_required lo hi) (nat (v - lo))))"

definition read_int :: "int \<Rightarrow> int \<Rightarrow> bitstream \<Rightarrow> (int \<times> bitstream) option" where
  "read_int lo hi s =
     map_option (\<lambda>(v, s'). (lo + int v, s')) (read_bits (bits_required lo hi) s)"

text \<open>
  The six \<^verbatim>\<open>serialize_bool\<close> calls on one input, in the order of the source.
\<close>

definition write_Input :: "Input \<Rightarrow> bitstream" where
  "write_Input x =
     write_bool (left x) @ write_bool (right x) @ write_bool (up x) @
     write_bool (down x) @ write_bool (push x) @ write_bool (pull x)"

definition read_Input :: "bitstream \<Rightarrow> (Input \<times> bitstream) option" where
  "read_Input s0 =
     Option.bind (read_bool s0) (\<lambda>(l, s1).
     Option.bind (read_bool s1) (\<lambda>(r, s2).
     Option.bind (read_bool s2) (\<lambda>(u, s3).
     Option.bind (read_bool s3) (\<lambda>(d, s4).
     Option.bind (read_bool s4) (\<lambda>(ps, s5).
     Option.bind (read_bool s5) (\<lambda>(pl, s6).
       Some (Input l r u d ps pl, s6)))))))"

text \<open>
  \<^verbatim>\<open>PROTOCOL_SERIALIZE_OBJECT\<close> of \<^verbatim>\<open>LockstepInputPacket\<close> with a write stream
  (\<^verbatim>\<open>Stream::IsWriting\<close>): \<open>SerializeWrite_body\<close> is the body of the loop over
  \<open>i = 1 ..< num_inputs\<close>.
\<close>

definition SerializeWrite_body :: "Input list \<Rightarrow> bitstream \<Rightarrow> nat \<Rightarrow> bitstream" where
  "SerializeWrite_body xs s i =
     (let input_changed = (xs ! i \<noteq> xs ! (i - 1)) in
      if input_changed then s @ write_bool input_changed @ write_Input (xs ! i)
      else s @ write_bool input_changed)"

definition SerializeWrite :: "LockstepInputPacket \<Rightarrow> bitstream option" where
  "SerializeWrite p =
     (case write_int 0 MaxInputs (num_inputs p) of
        None \<Rightarrow> None
      | Some count_bits \<Rightarrow>
          let s = write_uint16 (sequence p) @ count_bits in
          if num_inputs p \<ge> 1
          then Some (foldl (SerializeWrite_body (inputs p)) (s @ write_Input (inputs p ! 0))
                       [1..<nat (num_inputs p)])
          else Some s)"

text \<open>
  The same routine with a read stream (\<^verbatim>\<open>Stream::IsReading\<close>), reading into the
  packet \<open>p0\<close> the factory has created: \<open>input_changed\<close> starts \<^verbatim>\<open>false\<close> and is
  read from the stream, and an unchanged input is copied from its predecessor. A count
  above \<open>MaxInputs\<close> would store past the array \<^verbatim>\<open>inputs[MaxInputs]\<close>; that run is
  \<open>None\<close>.
\<close>

definition SerializeRead_body ::
  "(bitstream \<times> Input list) option \<Rightarrow> nat \<Rightarrow> (bitstream \<times> Input list) option" where
  "SerializeRead_body st i =
     (case st of
        None \<Rightarrow> None
      | Some (s, xs) \<Rightarrow>
          (case read_bool s of
             None \<Rightarrow> None
           | Some (input_changed, s1) \<Rightarrow>
               if input_changed
               then (case read_Input s1 of
                       None \<Rightarrow> None
                     | Some (x, s2) \<Rightarrow> Some (s2, xs[i := x]))
               else Some (s1, xs[i := xs ! (i - 1)])))"

definition SerializeRead :: "LockstepInputPacket \<Rightarrow> bitstream \<Rightarrow> LockstepInputPacket option" where
  "SerializeRead p0 s0 =
     (case read_uint16 s0 of
        None \<Rightarrow> None
      | Some (sq, s1) \<Rightarrow>
          (case read_int 0 MaxInputs s1 of
             None \<Rightarrow> None
           | Some (n, s2) \<Rightarrow>
               if n > int (length (inputs p0)) then None
               else if n \<ge> 1
               then (case read_Input s2 of
                       None \<Rightarrow> None
                     | Some (x, s3) \<Rightarrow>
                         map_option
                           (\<lambda>(s', xs). \<lparr>sequence = sq, num_inputs = n, inputs = xs\<rparr>)
                           (foldl SerializeRead_body (Some (s3, (inputs p0)[0 := x]))
                              [1..<nat n]))
               else Some \<lparr>sequence = sq, num_inputs = n, inputs = inputs p0\<rparr>))"

text \<open>
  A packet is valid when its count is within \<open>0 .. MaxInputs\<close>; its array has
  \<open>MaxInputs\<close> elements.
\<close>

definition valid_packet :: "LockstepInputPacket \<Rightarrow> bool" where
  "valid_packet p =
     (0 \<le> num_inputs p \<and> num_inputs p \<le> MaxInputs \<and> int (length (inputs p)) = MaxInputs)"

subsection \<open>The receive loop of \<^verbatim>\<open>LockstepDemo::Update\<close>\<close>

text \<open>
  Modelled from the spec: \<^verbatim>\<open>core::sequence_greater_than\<close> is missing. The spec's
  rule for comparing sequence numbers: \<open>a > b\<close> iff \<open>a - b\<close>, read as a signed 16-bit
  value, is strictly positive.
\<close>

definition sequence_greater_than :: "16 word \<Rightarrow> 16 word \<Rightarrow> bool" where
  "sequence_greater_than s1 s2 = (0 < sint (s1 - s2))"

datatype LockstepPacket =
    LOCKSTEP_PACKET_INPUT LockstepInputPacket
  | LOCKSTEP_PACKET_ACK "16 word"

text \<open>
  What the loop does to a received packet before it looks at it: the packet is written
  to the buffer of \<open>MaxPacketSize\<close> bytes and read back into a packet the factory has
  just created. \<open>fresh_inputs\<close> is the array of that new packet and \<open>rest\<close> the part
  of the buffer after the written bits, neither of them initialised. A failed
  \<^verbatim>\<open>CORE_CHECK\<close> or assertion is the fault \<open>AssertionFailed\<close>.
\<close>

definition serialize_write_then_read ::
  "Input list \<Rightarrow> bitstream \<Rightarrow> LockstepPacket \<Rightarrow> Fault + LockstepPacket" where
  "serialize_write_then_read fresh_inputs rest packet =
     (case packet of
        LOCKSTEP_PACKET_INPUT p \<Rightarrow>
          (case SerializeWrite p of
             None \<Rightarrow> Inl AssertionFailed
           | Some s \<Rightarrow>
               if 8 * MaxPacketSize < length s then Inl AssertionFailed
               else
                 (case SerializeRead \<lparr>sequence = 0, num_inputs = 0, inputs = fresh_inputs\<rparr>
                         (s @ rest) of
                    None \<Rightarrow> Inl AssertionFailed
                  | Some p' \<Rightarrow> Inr (LOCKSTEP_PACKET_INPUT p')))
      | LOCKSTEP_PACKET_ACK a \<Rightarrow>
          (case read_uint16 (write_uint16 a @ rest) of
             None \<Rightarrow> Inl AssertionFailed
           | Some (a', s') \<Rightarrow> Inr (LOCKSTEP_PACKET_ACK a')))"

text \<open>
  The variables of \<^verbatim>\<open>LockstepDemo::Update\<close> the receive loop reads and writes. The
  sliding window of the sender (\<^verbatim>\<open>protocol::RealSlidingWindow\<close>) is missing: its
  state is the type parameter \<open>'w\<close> and its \<^verbatim>\<open>Ack\<close> a parameter of the loop, as is
  the simulator's \<^verbatim>\<open>GetTCPMode()\<close>.
\<close>

record 'w LockstepReceive =
  received_input_this_frame :: bool
  ack_sequence :: "16 word"
  playout_delay_buffer :: "Input LockstepPlayoutDelayBuffer"
  input_sliding_window :: 'w

definition Update_receive_body ::
  "bool \<Rightarrow> (16 word \<Rightarrow> 'w \<Rightarrow> 'w) \<Rightarrow> real \<Rightarrow> Input list \<Rightarrow> bitstream \<Rightarrow>
   'w LockstepReceive \<Rightarrow> int \<times> LockstepPacket \<Rightarrow> Fault + 'w LockstepReceive" where
  "Update_receive_body tcp_mode window_Ack t fresh_inputs rest st received =
     (let (port, packet) = received in
      bind_fault (serialize_write_then_read fresh_inputs rest packet) (\<lambda>read_packet.
        case read_packet of
          LOCKSTEP_PACKET_INPUT input_packet \<Rightarrow>
            if port = RightPort then
              let st1 =
                (if \<not> tcp_mode then
                   if \<not> received_input_this_frame st
                   then st\<lparr>received_input_this_frame := True,
                           ack_sequence := sequence input_packet - 1\<rparr>
                   else if sequence_greater_than (sequence input_packet - 1) (ack_sequence st)
                   then st\<lparr>ack_sequence := sequence input_packet - 1\<rparr>
                   else st
                 else st)
              in bind_fault
                   (AddInputs t (sequence input_packet) (num_inputs input_packet)
                      (inputs input_packet) (playout_delay_buffer st1))
                   (\<lambda>b. Inr (st1\<lparr>playout_delay_buffer := b\<rparr>))
            else Inr st
        | LOCKSTEP_PACKET_ACK ack \<Rightarrow>
            if port = LeftPort \<and> \<not> tcp_mode
            then Inr (st\<lparr>input_sliding_window := window_Ack ack (input_sliding_window st)\<rparr>)
            else Inr st))"

fun Update_receive_loop ::
  "bool \<Rightarrow> (16 word \<Rightarrow> 'w \<Rightarrow> 'w) \<Rightarrow> real \<Rightarrow> Input list \<Rightarrow> bitstream \<Rightarrow>
   (int \<times> LockstepPacket) list \<Rightarrow> 'w LockstepReceive \<Rightarrow> Fault + 'w LockstepReceive" where
  "Update_receive_loop tcp_mode window_Ack t fresh_inputs rest [] st = Inr st"
| "Update_receive_loop tcp_mode window_Ack t fresh_inputs rest (received # queue) st =
     bind_fault (Update_receive_body tcp_mode window_Ack t fresh_inputs rest st received)
       (Update_receive_loop tcp_mode window_Ack t fresh_inputs rest queue)"

text \<open>
  The receiving part of one \<^verbatim>\<open>Update\<close>: the two locals are initialised, the loop
  drains the packets the simulator delivers, and the packets sent afterwards are returned
  with their destination port: the ack packet to \<open>LeftPort\<close>, if any.
\<close>

definition Update_receive ::
  "bool \<Rightarrow> (16 word \<Rightarrow> 'w \<Rightarrow> 'w) \<Rightarrow> real \<Rightarrow> Input list \<Rightarrow> bitstream \<Rightarrow>
   (int \<times> LockstepPacket) list \<Rightarrow> Input LockstepPlayoutDelayBuffer \<Rightarrow> 'w \<Rightarrow>
   Fault + ('w LockstepReceive \<times> (int \<times> LockstepPacket) list)" where
  "Update_receive tcp_mode window_Ack t fresh_inputs rest queue buffer window =
     bind_fault
       (Update_receive_loop tcp_mode window_Ack t fresh_inputs rest queue
          \<lparr>received_input_this_frame = False, ack_sequence = 0,
           playout_delay_buffer = buffer, input_sliding_window = window\<rparr>)
       (\<lambda>st. Inr (st, if received_input_this_frame st
                      then [(LeftPort, LOCKSTEP_PACKET_ACK (ack_sequence st))]
                      else []))"

section \<open>Notions of the spec used in the statements\<close>

subsection \<open>Client\<close>

text \<open>
  The timeout the spec calls \<open>\<tau>\<close>: \<open>connectedTimeOut\<close> when CONNECTED,
  \<open>connectingTimeOut\<close> otherwise.
\<close>

definition timeout_of :: "('c, 's, 'r, 'v) Client \<Rightarrow> real" where
  "timeout_of c =
     (if m_state c = CLIENT_STATE_CONNECTED then connectedTimeOut (m_config c)
      else connectingTimeOut (m_config c))"

text \<open>
  The two kinds of data block packets, and the packets that set
  \<open>m_lastPacketReceiveTime\<close>: a connection challenge, a ReadyForConnection packet and
  a Connection packet the connection reads successfully.
\<close>

fun is_data_block_packet :: "Packet \<Rightarrow> bool" where
  "is_data_block_packet (DataBlockFragmentPacket cg sg bs nf fid fb fd) = True"
| "is_data_block_packet (DataBlockFragmentAckPacket cg sg fid) = True"
| "is_data_block_packet _ = False"

fun refreshes_receive_time ::
  "('c, 's, 'r, 'v) Collaborators \<Rightarrow> ('c, 's, 'r, 'v) Client \<Rightarrow> Packet \<Rightarrow> bool" where
  "refreshes_receive_time env c (ConnectionChallengePacket cg sg) = True"
| "refreshes_receive_time env c (ReadyForConnectionPacket cg sg) = True"
| "refreshes_receive_time env c (ConnectionPacket payload) =
     fst (conn_ReadPacket env payload (m_connection c))"
| "refreshes_receive_time env c _ = False"

text \<open>
  \<open>same_session c c'\<close>: the fields a data block packet leaves alone when the receiver
  reports no error. \<open>tick_inbound env tb c\<close>: the packets the receive loop of the
  \<^verbatim>\<open>Update\<close> at \<open>tb\<close> dequeues, which are those the interface holds once
  \<^verbatim>\<open>UpdateConnection\<close>, \<^verbatim>\<open>UpdateSendPackets\<close> and \<^verbatim>\<open>UpdateNetworkInterface\<close>
  have run. \<open>receiver_after env cg sg r p\<close>: the data block receiver once the packet
  \<open>p\<close> is processed, which is changed by a fragment that carries the session's GUIDs
  \<open>cg\<close> and \<open>sg\<close> only. \<open>receiver_errs env cg sg r queue\<close>: one of the
  fragments of \<open>queue\<close> that carry the session's GUIDs leaves the data block
  receiver, started from \<open>r\<close>, reporting an error; no receiver, no error.
  \<open>only_data_block_packets env tb c\<close>: the client is past the challenge and not yet
  connected (with its sender, if it is sending client data), and the receive loop of the
  tick at \<open>tb\<close> finds nothing but data block packets.
\<close>

definition same_session :: "('c, 's, 'r, 'v) Client \<Rightarrow> ('c, 's, 'r, 'v) Client \<Rightarrow> bool" where
  "same_session c c' =
     (m_state c' = m_state c \<and> m_lastPacketReceiveTime c' = m_lastPacketReceiveTime c \<and>
      m_timeBase c' = m_timeBase c \<and> m_config c' = m_config c \<and> m_error c' = m_error c \<and>
      (m_dataBlockSender c' = None \<longleftrightarrow> m_dataBlockSender c = None))"

definition tick_inbound ::
  "('c, 's, 'r, 'v) Collaborators \<Rightarrow> TimeBase \<Rightarrow> ('c, 's, 'r, 'v) Client \<Rightarrow>
   (Address \<times> Packet) list" where
  "tick_inbound env tb c =
     inbound (m_networkInterface
       (UpdateNetworkInterface env
          (UpdateSendPackets env (UpdateConnection env (c\<lparr>m_timeBase := tb\<rparr>)))))"

fun receiver_after ::
  "('c, 's, 'r, 'v) Collaborators \<Rightarrow> guid \<Rightarrow> guid \<Rightarrow> 'r option \<Rightarrow> Packet \<Rightarrow> 'r option" where
  "receiver_after env cg sg (Some r)
     (DataBlockFragmentPacket clientGuid serverGuid bs nf fid fb fd) =
     (if clientGuid = cg \<and> serverGuid = sg
      then Some (fst (rcv_ProcessFragment env bs nf fid fb fd r))
      else Some r)"
| "receiver_after env cg sg r _ = r"

fun receiver_errs ::
  "('c, 's, 'r, 'v) Collaborators \<Rightarrow> guid \<Rightarrow> guid \<Rightarrow> 'r option \<Rightarrow>
   (Address \<times> Packet) list \<Rightarrow> bool" where
  "receiver_errs env cg sg None queue = False"
| "receiver_errs env cg sg (Some r) [] = False"
| "receiver_errs env cg sg (Some r)
     ((a, DataBlockFragmentPacket clientGuid serverGuid bs nf fid fb fd) # queue) =
     (if clientGuid = cg \<and> serverGuid = sg
      then
        let r' = fst (rcv_ProcessFragment env bs nf fid fb fd r)
        in if rcv_IsError env r' then True else receiver_errs env cg sg (Some r') queue
      else receiver_errs env cg sg (Some r) queue)"
| "receiver_errs env cg sg (Some r) (_ # queue) = receiver_errs env cg sg (Some r) queue"

definition only_data_block_packets ::
  "('c, 's, 'r, 'v) Collaborators \<Rightarrow> TimeBase \<Rightarrow> ('c, 's, 'r, 'v) Client \<Rightarrow> bool" where
  "only_data_block_packets env tb c =
     ((m_state c = CLIENT_STATE_SENDING_CHALLENGE_RESPONSE \<or>
       m_state c = CLIENT_STATE_SENDING_CLIENT_DATA \<and> m_dataBlockSender c \<noteq> None \<or>
       m_state c = CLIENT_STATE_READY_FOR_CONNECTION) \<and>
      list_all (\<lambda>ap. is_data_block_packet (snd ap)) (tick_inbound env tb c))"

text \<open>
  The invariant of the spec: an error is latched only while the client is DISCONNECTED.
\<close>

definition error_only_when_disconnected :: "('c, 's, 'r, 'v) Client \<Rightarrow> bool" where
  "error_only_when_disconnected c =
     (m_error c \<noteq> CLIENT_ERROR_NONE \<longrightarrow> m_state c = CLIENT_STATE_DISCONNECTED)"

subsection \<open>Playout delay buffer\<close>

text \<open>
  The spec's condition for emitting frame \<open>f\<close> at time \<open>t\<close>, in exact arithmetic:
  \<open>t \<ge> startTime + (f + 0.5)/60 + PlayoutDelay\<close>, with the playout delay of 0.25 s.
\<close>

definition playout_due :: "real \<Rightarrow> real \<Rightarrow> 64 word \<Rightarrow> bool" where
  "playout_due t startTime f = (t \<ge> startTime + (real (unat f) + 0.5) / 60 + 0.25)"

text \<open>
  A run of the playout delay buffer: any sequence of calls of \<^verbatim>\<open>AddInputs\<close> and
  \<^verbatim>\<open>GetFrames\<close>, from a buffer and the frames emitted so far; a failed assertion
  ends the run. \<open>tag_inputs\<close> pairs each input of a batch with the sequence number
  \<^verbatim>\<open>AddInputs\<close> computes for its index, \<open>sequence - num_inputs + i\<close>; a run on
  tagged batches is the same code, run on inputs that carry their sequence number along.
\<close>

datatype 'a playout_call =
    AddInputs_call real "16 word" int "'a list"
  | GetFrames_call int real

fun playout_step ::
  "'a playout_call \<Rightarrow> 'a LockstepPlayoutDelayBuffer \<times> 'a list \<Rightarrow>
   Fault + 'a LockstepPlayoutDelayBuffer \<times> 'a list" where
  "playout_step (AddInputs_call t sq n xs) (b, emitted) =
     bind_fault (AddInputs t sq n xs b) (\<lambda>b'. Inr (b', emitted))"
| "playout_step (GetFrames_call MaxSimFrames t) (b, emitted) =
     (let (b', frame_input) = GetFrames MaxSimFrames t b in Inr (b', emitted @ frame_input))"

fun playout_run ::
  "'a playout_call list \<Rightarrow> 'a LockstepPlayoutDelayBuffer \<times> 'a list \<Rightarrow>
   Fault + 'a LockstepPlayoutDelayBuffer \<times> 'a list" where
  "playout_run [] st = Inr st"
| "playout_run (call # calls) st = bind_fault (playout_step call st) (playout_run calls)"

definition tag_inputs :: "16 word \<Rightarrow> int \<Rightarrow> 'a list \<Rightarrow> (16 word \<times> 'a) list" where
  "tag_inputs sq n xs = map (\<lambda>i. (sq - word_of_int n + of_nat i, xs ! i)) [0..<length xs]"

fun tagged_call :: "'a playout_call \<Rightarrow> (16 word \<times> 'a) playout_call" where
  "tagged_call (AddInputs_call t sq n xs) = AddInputs_call t sq n (tag_inputs sq n xs)"
| "tagged_call (GetFrames_call MaxSimFrames t) = GetFrames_call MaxSimFrames t"

definition untag_buffer ::
  "(16 word \<times> 'a) LockstepPlayoutDelayBuffer \<Rightarrow> 'a LockstepPlayoutDelayBuffer" where
  "untag_buffer b =
     \<lparr>stopped = stopped b, start_time = start_time b, most_recent_input = most_recent_input b,
      frame = frame b, input_queue = map snd (input_queue b)\<rparr>"

text \<open>
  \<open>numbered st\<close>: read in the order they were appended, the items emitted so far and
  the items still queued carry the sequence numbers 0, 1, 2, ... (as 16-bit values), and
  \<open>most_recent_input\<close> is the number after the last of them. \<open>valid_call\<close>: a call
  of \<^verbatim>\<open>AddInputs\<close> satisfies its assertion and its count is within the array.
\<close>

definition numbered ::
  "(16 word \<times> 'a) LockstepPlayoutDelayBuffer \<times> (16 word \<times> 'a) list \<Rightarrow> bool" where
  "numbered st =
     (map fst (snd st @ input_queue (fst st)) =
        map of_nat [0..<length (snd st @ input_queue (fst st))] \<and>
      most_recent_input (fst st) = of_nat (length (snd st @ input_queue (fst st))))"

definition untag_state ::
  "(16 word \<times> 'a) LockstepPlayoutDelayBuffer \<times> (16 word \<times> 'a) list \<Rightarrow>
   'a LockstepPlayoutDelayBuffer \<times> 'a list" where
  "untag_state st = (untag_buffer (fst st), map snd (snd st))"

fun valid_call :: "'a playout_call \<Rightarrow> bool" where
  "valid_call (AddInputs_call t sq n xs) = (0 < n \<and> n \<le> int (length xs))"
| "valid_call (GetFrames_call MaxSimFrames t) = True"

text \<open>
  The sequence numbers of a run from a new buffer: those of the frames emitted, followed
  by those of the inputs still queued.
\<close>

definition run_sequence_numbers :: "'a playout_call list \<Rightarrow> 16 word list" where
  "run_sequence_numbers calls =
     (case playout_run (map tagged_call calls) (LockstepPlayoutDelayBuffer_init, []) of
        Inl fault \<Rightarrow> []
      | Inr st \<Rightarrow> map fst (snd st @ input_queue (fst st)))"

subsection \<open>Input packets and acks\<close>

text \<open>
  The compressed form of the spec for the first \<open>n\<close> inputs of an array: the first
  input in full, then for each further input one bit that says whether it differs from
  its predecessor, followed by the input in full when it does.
\<close>

definition compressed_inputs :: "Input list \<Rightarrow> nat \<Rightarrow> bitstream" where
  "compressed_inputs xs n =
     (if n = 0 then []
      else write_Input (xs ! 0) @
           concat (map (\<lambda>i. if xs ! i = xs ! (i - 1) then [False] else True # write_Input (xs ! i))
                     [1..<n]))"

text \<open>
  The receiver's tick in the words of the spec. \<open>input_sequences\<close>: the sequence
  numbers of the input packets that arrive for the right simulation, in order of arrival.
  \<open>retained_ack\<close>: the candidate of the first packet, replaced by the candidate of each
  later packet that is greater than the ack retained so far; the candidate of a packet
  is its sequence number minus one. \<open>within_half_window base\<close>: the candidates lie
  fewer than 32768 sequence numbers ahead of \<open>base\<close>. \<open>valid_received\<close>: an input
  packet is valid and, when it is for the right simulation, not empty.
\<close>

fun input_sequences :: "(int \<times> LockstepPacket) list \<Rightarrow> 16 word list" where
  "input_sequences [] = []"
| "input_sequences ((port, LOCKSTEP_PACKET_INPUT p) # queue) =
     (if port = RightPort then sequence p # input_sequences queue else input_sequences queue)"
| "input_sequences ((port, LOCKSTEP_PACKET_ACK a) # queue) = input_sequences queue"

fun retained_ack :: "16 word list \<Rightarrow> 16 word" where
  "retained_ack [] = 0"
| "retained_ack (s # ss) =
     foldl (\<lambda>ack s'. if sequence_greater_than (s' - 1) ack then s' - 1 else ack) (s - 1) ss"

definition within_half_window :: "16 word \<Rightarrow> 16 word list \<Rightarrow> bool" where
  "within_half_window base ss = list_all (\<lambda>s. unat (s - 1 - base) < 32768) ss"

fun valid_received :: "int \<times> LockstepPacket \<Rightarrow> bool" where
  "valid_received (port, LOCKSTEP_PACKET_INPUT p) =
     (valid_packet p \<and> (if port = RightPort then 1 \<le> num_inputs p else True))"
| "valid_received (port, LOCKSTEP_PACKET_ACK a) = True"

definition sent_acks :: "bool \<Rightarrow> (int \<times> LockstepPacket) list \<Rightarrow> (int \<times> LockstepPacket) list" where
  "sent_acks tcp_mode queue =
     (if \<not> tcp_mode \<and> input_sequences queue \<noteq> []
      then [(LeftPort, LOCKSTEP_PACKET_ACK (retained_ack (input_sequences queue)))]
      else [])"

text \<open>
  One step of the ack computation of the receive loop on the pair of
  \<^verbatim>\<open>received_input_this_frame\<close> and \<^verbatim>\<open>ack_sequence\<close>, for an input packet
  with sequence number \<open>s\<close>.
\<close>

definition ack_step :: "bool \<times> 16 word \<Rightarrow> 16 word \<Rightarrow> bool \<times> 16 word" where
  "ack_step ra s =
     (if \<not> fst ra then (True, s - 1)
      else if sequence_greater_than (s - 1) (snd ra) then (True, s - 1)
      else ra)"

section \<open>Concrete instances\<close>

text \<open>
  The instances on which the theorems below are exercised; their times are numbers a
  \<^verbatim>\<open>double\<close> holds exactly, or the \<^verbatim>\<open>double\<close> nearest to a decimal. For the
  client: one choice of collaborators, in which the connection reads a packet
  successfully iff its payload is not empty and counts its calls and the receiver reports
  an error from its third fragment on; a client with a session in a given state; the same
  client late in time; a client whose receive time is the \<^verbatim>\<open>double\<close> \<^verbatim>\<open>0.7\<close> at
  the time \<^verbatim>\<open>5.7\<close>; a client with a resolver; and two clients that are sending
  client data, one with a fragment and an ack in its interface's queue, one with three
  fragments. For the lockstep pipeline: a buffer with three queued inputs; calls with
  overlapping, repeated and stale batches; nine inputs added at time 0 and frames asked
  for at time 0.375; \<open>k\<close> batches of 256 inputs each, one after the other; an input
  packet; and two queues of received packets, the second with sequence numbers half the
  sequence space apart.
\<close>

definition example_env :: "(nat, nat, nat, nat) Collaborators" where
  "example_env =
     \<lparr>conn_Reset = (\<lambda>c. 0),
      conn_Update = (\<lambda>tb c. c),
      conn_HasError = (\<lambda>c. False),
      conn_ReadPacket = (\<lambda>payload c. (payload \<noteq> [], Suc c)),
      conn_WritePacket = (\<lambda>c. ([], c)),
      snd_Clear = (\<lambda>s. 0),
      snd_SetInfo = (\<lambda>info s. s),
      snd_ProcessAck = (\<lambda>fragmentId s. Suc s),
      snd_SendCompleted = (\<lambda>s. False),
      snd_Update = (\<lambda>tb s. (s, [])),
      rcv_Clear = (\<lambda>r. 0),
      rcv_SetInfo = (\<lambda>info r. r),
      rcv_ProcessFragment = (\<lambda>blockSize numFragments fragmentId fragmentBytes fragmentData r. (Suc r, [])),
      rcv_IsError = (\<lambda>r. 3 \<le> r),
      rcv_GetError = (\<lambda>r. 1),
      res_Resolve = (\<lambda>hostname v. v),
      res_Update = (\<lambda>tb v. v),
      res_GetEntry = (\<lambda>hostname v. None),
      net_Update = (\<lambda>tb n. n),
      parse_address = (\<lambda>hostname. None),
      PROTOCOL_USE_RESOLVER = True,
      MaxHostName = 64\<rparr>"

definition example_config :: ClientConfig where
  "example_config =
     \<lparr>clientData = True, connectingSendRate = 10, connectedSendRate = 30,
      connectingTimeOut = 5, connectedTimeOut = 10, defaultServerPort = 10000\<rparr>"

definition example_client :: "ClientState \<Rightarrow> (nat, nat, nat, nat) Client" where
  "example_client s =
     \<lparr>m_config = example_config,
      m_resolver = None,
      m_networkInterface = \<lparr>inbound = [], outbound = []\<rparr>,
      m_connection = 0,
      m_dataBlockSender = Some 0,
      m_dataBlockReceiver = Some 0,
      m_state = s,
      m_error = CLIENT_ERROR_NONE,
      m_extendedError = 0,
      m_address = Address ''::1'' 10000,
      m_hostname = [],
      m_clientGuid = 7,
      m_serverGuid = 9,
      m_lastPacketReceiveTime = 1,
      m_accumulator = 0,
      m_timeBase = \<lparr>time = 2, deltaTime = 1 / 64\<rparr>\<rparr>"

definition expired_client :: "ClientState \<Rightarrow> (nat, nat, nat, nat) Client" where
  "expired_client s = (example_client s)\<lparr>m_timeBase := \<lparr>time = 100, deltaTime = 1\<rparr>\<rparr>"

definition rounding_client :: "(nat, nat, nat, nat) Client" where
  "rounding_client =
     (example_client CLIENT_STATE_SENDING_CONNECTION_REQUEST)
       \<lparr>m_lastPacketReceiveTime := double_of_real (7 / 10),
        m_timeBase := \<lparr>time = double_of_real (57 / 10), deltaTime = 1 / 64\<rparr>\<rparr>"

definition resolving_client :: "(nat, nat, nat, nat) Client" where
  "resolving_client = (example_client CLIENT_STATE_DISCONNECTED)\<lparr>m_resolver := Some 0\<rparr>"

definition fragment_client :: "(nat, nat, nat, nat) Client" where
  "fragment_client =
     (example_client CLIENT_STATE_SENDING_CLIENT_DATA)
       \<lparr>m_networkInterface :=
          \<lparr>inbound = [(Address ''::1'' 10000, DataBlockFragmentPacket 7 9 100 1 0 100 []),
                      (Address ''::1'' 10000, DataBlockFragmentAckPacket 7 9 0)],
           outbound = []\<rparr>\<rparr>"

definition failing_fragment_client :: "(nat, nat, nat, nat) Client" where
  "failing_fragment_client =
     (example_client CLIENT_STATE_SENDING_CLIENT_DATA)
       \<lparr>m_networkInterface :=
          \<lparr>inbound = [(Address ''::1'' 10000, DataBlockFragmentPacket 7 9 100 3 0 100 []),
                      (Address ''::1'' 10000, DataBlockFragmentPacket 7 9 100 3 1 100 []),
                      (Address ''::1'' 10000, DataBlockFragmentPacket 7 9 100 3 2 100 [])],
           outbound = []\<rparr>\<rparr>"

definition example_buffer :: "nat LockstepPlayoutDelayBuffer" where
  "example_buffer =
     \<lparr>stopped = False, start_time = 1, most_recent_input = 5, frame = 2,
      input_queue = [2, 3, 4]\<rparr>"

definition example_calls :: "nat playout_call list" where
  "example_calls =
     [AddInputs_call 0 2 2 [10, 11],
      AddInputs_call (1 / 8) 4 3 [11, 12, 13],
      GetFrames_call 4 1,
      AddInputs_call (9 / 8) 3 1 [12],
      AddInputs_call (5 / 4) 6 2 [14, 15]]"

definition due_calls :: "nat playout_call list" where
  "due_calls =
     [AddInputs_call 0 9 9 [10, 11, 12, 13, 14, 15, 16, 17, 18],
      GetFrames_call 8 (3 / 8)]"

definition wrapping_calls :: "nat \<Rightarrow> nat playout_call list" where
  "wrapping_calls k =
     map (\<lambda>j. AddInputs_call 0 (of_nat (256 * (j + 1))) 256 (replicate 256 j)) [0..<k]"

definition example_packet :: LockstepInputPacket where
  "example_packet =
     \<lparr>sequence = 513, num_inputs = 3,
      inputs = Input True False False False False False #
               Input True False False False False False #
               Input False True False False True False #
               replicate 253 (Input False False False False False False)\<rparr>"

definition packet_with_sequence :: "16 word \<Rightarrow> int \<times> LockstepPacket" where
  "packet_with_sequence s =
     (RightPort, LOCKSTEP_PACKET_INPUT (example_packet\<lparr>sequence := s\<rparr>))"

definition no_window_Ack :: "16 word \<Rightarrow> unit \<Rightarrow> unit" where
  "no_window_Ack ack window = window"

definition example_fresh_inputs :: "Input list" where
  "example_fresh_inputs = replicate 256 (Input True True True True True True)"

definition example_queue :: "(int \<times> LockstepPacket) list" where
  "example_queue =
     [packet_with_sequence 5, (LeftPort, LOCKSTEP_PACKET_ACK 3), packet_with_sequence 7,
      packet_with_sequence 6]"

definition wrapped_queue :: "(int \<times> LockstepPacket) list" where
  "wrapped_queue = [packet_with_sequence 1, packet_with_sequence 30001, packet_with_sequence 60001]"

section \<open>Properties and evaluation of the floating-point operations\<close>

text \<open>
  The search finds the binade of every number between \<open>2 powi (- 1100)\<close> and
  \<open>2 powi 1101\<close>, a range that holds the finite non-zero values of both formats, and
  for a number below the least normal one the exponent used is \<open>emin\<close>. The rounded
  value differs from the exact one by at most half a unit in the last place.
\<close>

lemma binade_search_bounds:
  assumes "2 powi (e - int n) \<le> x" and "x < 2 powi (e + 1 + int n)"
  shows "2 powi (binade_search n e x) \<le> x \<and> x < 2 powi (binade_search n e x + 1)"
  using assms
proof (induction n arbitrary: e)
  case 0
  then show ?case by simp
next
  case (Suc n)
  show ?case
  proof (cases "x < 2 powi e")
    case True
    have "(2::real) powi e \<le> 2 powi (e - 1 + 1 + int n)"
      by (rule power_int_increasing) simp_all
    then have "x < 2 powi (e - 1 + 1 + int n)" using True by simp
    moreover have "2 powi (e - 1 - int n) \<le> x"
      using Suc.prems(1) by (simp add: algebra_simps)
    ultimately show ?thesis
      using Suc.IH [of "e - 1"] True by simp
  next
    case False
    show ?thesis
    proof (cases "2 powi (e + 1) \<le> x")
      case True
      have "(2::real) powi (e + 1 - int n) \<le> 2 powi (e + 1)"
        by (rule power_int_increasing) simp_all
      then have "2 powi (e + 1 - int n) \<le> x" using True by simp
      moreover have "x < 2 powi (e + 1 + 1 + int n)"
        using Suc.prems(2) by (simp add: algebra_simps)
      ultimately show ?thesis
        using Suc.IH [of "e + 1"] True False by simp
    next
      case False
      then show ?thesis using \<open>\<not> x < 2 powi e\<close> by simp
    qed
  qed
qed

lemma binade_search_below:
  assumes "x < 2 powi m" and "e - int n < m"
  shows "binade_search n e x < m"
  using assms
proof (induction n arbitrary: e)
  case 0
  then show ?case by simp
next
  case (Suc n)
  have up: "e + 1 < m" if "2 powi (e + 1) \<le> x"
  proof (rule ccontr)
    assume "\<not> e + 1 < m"
    then have "(2::real) powi m \<le> 2 powi (e + 1)"
      by (intro power_int_increasing) simp_all
    then show False using that Suc.prems(1) by simp
  qed
  have here: "e < m" if "\<not> x < 2 powi e"
  proof (rule ccontr)
    assume "\<not> e < m"
    then have "(2::real) powi m \<le> 2 powi e"
      by (intro power_int_increasing) simp_all
    then show False using that Suc.prems(1) by simp
  qed
  show ?case
    using Suc.IH [of "e - 1"] Suc.IH [of "e + 1"] Suc.prems up here
    by auto
qed

lemma binade_bounds:
  assumes "2 powi (- 1100) \<le> \<bar>x\<bar>" and "\<bar>x\<bar> < 2 powi 1101"
  shows "2 powi (binade x) \<le> \<bar>x\<bar> \<and> \<bar>x\<bar> < 2 powi (binade x + 1)"
  unfolding binade_def
  by (rule binade_search_bounds) (use assms in simp_all)

lemma binade_subnormal:
  assumes "\<bar>x\<bar> < 2 powi emin" and "- 1100 < emin"
  shows "max (binade x) emin = emin"
  using binade_search_below [of "\<bar>x\<bar>" emin 0 1100] assms
  by (simp add: binade_def)

lemma round_half_even_error: "\<bar>of_int (round_half_even r) - r\<bar> \<le> 1 / 2"
  unfolding round_half_even_def Let_def
  by (auto simp: abs_if) linarith+

lemma fp_round_error:
  "\<bar>fp_round p emin x - x\<bar> \<le> 2 powi (max (binade x) emin - int p + 1) / 2"
proof (cases "x = 0")
  case True
  then show ?thesis by (simp add: fp_round_def)
next
  case False
  define s :: real where "s = 2 powi (max (binade x) emin - int p + 1)"
  have s: "0 < s" by (simp add: s_def)
  have "fp_round p emin x - x = (of_int (round_half_even (x / s)) - x / s) * s"
    using False s by (simp add: fp_round_def Let_def s_def algebra_simps)
  then have "\<bar>fp_round p emin x - x\<bar> = \<bar>of_int (round_half_even (x / s)) - x / s\<bar> * s"
    using s by (simp add: abs_mult)
  also have "\<dots> \<le> (1 / 2) * s"
    using round_half_even_error [of "x / s"] s by (intro mult_right_mono) simp_all
  finally show ?thesis by (simp add: s_def)
qed

lemma double_add_error:
  "\<bar>double_add x y - (x + y)\<bar> \<le> 2 powi (max (binade (x + y)) (- 1022) - 52) / 2"
  using fp_round_error [of 53 "- 1022" "x + y"]
  by (simp add: double_add_def double_of_real_def)

lemma double_add_less:
  assumes "x + y + 2 powi (max (binade (x + y)) (- 1022) - 52) / 2 < z"
  shows "double_add x y < z"
  using double_add_error [of x y] assms by linarith

text \<open>
  The rules that compute a rounding on a numeral, and the values the examples below
  rely on: the \<^verbatim>\<open>float\<close> quotient \<^verbatim>\<open>1.0f / 60.0f\<close> is \<open>8947849 / 2^29\<close>, a
  little more than \<open>1/60\<close>; and the \<^verbatim>\<open>double\<close> sum of \<^verbatim>\<open>0.7\<close> and \<^verbatim>\<open>5.0\<close> is
  the \<^verbatim>\<open>double\<close> \<^verbatim>\<open>5.7\<close>, although the exact sum of the two is less than it.
\<close>

lemma binade_search_numeral:
  "binade_search (numeral k) e x =
     (if x < 2 powi e then binade_search (pred_numeral k) (e - 1) x
      else if 2 powi (e + 1) \<le> x then binade_search (pred_numeral k) (e + 1) x
      else e)"
  by (simp add: numeral_eq_Suc)

lemmas fp_eval =
  binade_search_numeral binade_def round_half_even_def fp_round_def double_of_real_def
  float_of_real_def double_add_def double_sub_def double_mul_def double_div_def float_div_def
  Let_def power_int_def power_one_over

lemma float_one_sixtieth: "float_div 1 60 = 8947849 / 2 ^ 29"
  by (simp add: fp_eval)

lemma float_one_sixtieth_greater: "1 / 60 < float_div 1 60"
  by (simp add: float_one_sixtieth)

lemma double_seven_tenths:
  "double_of_real (7 / 10) = 6305039478318694 / 2 ^ 53"
  "double_of_real (57 / 10) = 6417629469002957 / 2 ^ 50"
  by (simp_all add: fp_eval)

lemma double_sum_rounds_up:
  "double_add (double_of_real (7 / 10)) 5 = double_of_real (57 / 10)"
  "double_of_real (7 / 10) + 5 < double_of_real (57 / 10)"
  by (simp_all add: fp_eval)

section \<open>Theorems about the client\<close>

subsection \<open>Disconnect\<close>

text \<open>
  Claim C9. \<^verbatim>\<open>Disconnect()\<close> leaves a client that is already DISCONNECTED as it is.
  Otherwise it sends exactly one Disconnected packet, to the session's address and
  stamped with the client and server GUIDs held before the call, resets the connection,
  clears the data block sender and receiver where they exist, clears the address, the
  hostname and both GUIDs, and sets the state to DISCONNECTED; the latched error and
  extended error are the ones held before the call.
\<close>

theorem Disconnect_effect:
  "(m_state c = CLIENT_STATE_DISCONNECTED \<longrightarrow> Disconnect env c = c) \<and>
   (m_state c \<noteq> CLIENT_STATE_DISCONNECTED \<longrightarrow>
      outbound (m_networkInterface (Disconnect env c)) =
        outbound (m_networkInterface c) @
          [(m_address c, DisconnectedPacket (m_clientGuid c) (m_serverGuid c))] \<and>
      inbound (m_networkInterface (Disconnect env c)) = inbound (m_networkInterface c) \<and>
      m_connection (Disconnect env c) = conn_Reset env (m_connection c) \<and>
      m_dataBlockSender (Disconnect env c) = map_option (snd_Clear env) (m_dataBlockSender c) \<and>
      m_dataBlockReceiver (Disconnect env c) = map_option (rcv_Clear env) (m_dataBlockReceiver c) \<and>
      m_address (Disconnect env c) = Address_default \<and>
      m_hostname (Disconnect env c) = [] \<and>
      m_clientGuid (Disconnect env c) = 0 \<and>
      m_serverGuid (Disconnect env c) = 0 \<and>
      m_state (Disconnect env c) = CLIENT_STATE_DISCONNECTED \<and>
      m_error (Disconnect env c) = m_error c \<and>
      m_extendedError (Disconnect env c) = m_extendedError c)"
  by (simp add: Disconnect_def IsDisconnected_def ClearStateData_def SendPacket_def Let_def)

theorem Disconnect_effect_witness:
  "outbound (m_networkInterface (Disconnect example_env (example_client CLIENT_STATE_CONNECTED))) =
     [(Address ''::1'' 10000, DisconnectedPacket 7 9)] \<and>
   m_state (Disconnect example_env (example_client CLIENT_STATE_CONNECTED)) = CLIENT_STATE_DISCONNECTED \<and>
   m_error (Disconnect example_env (example_client CLIENT_STATE_CONNECTED)) = CLIENT_ERROR_NONE \<and>
   Disconnect example_env (example_client CLIENT_STATE_DISCONNECTED) = example_client CLIENT_STATE_DISCONNECTED"
  using Disconnect_effect [of "example_client CLIENT_STATE_CONNECTED" example_env]
        Disconnect_effect [of "example_client CLIENT_STATE_DISCONNECTED" example_env]
  by (simp add: example_client_def)

subsection \<open>Connection packets while READY_FOR_CONNECTION\<close>

text \<open>
  Claim C1, as stated: the client goes from READY_FOR_CONNECTION to CONNECTED iff
  \<^verbatim>\<open>ReadPacket\<close> succeeds. It fails: here the read fails (the payload is empty) and
  the client is CONNECTED all the same, because the state is set before the packet is
  read.
\<close>

theorem Connection_packet_connects_on_failed_read:
  "m_state (ReceivePacket_body example_env (Address ''::1'' 10000, ConnectionPacket [])
              (example_client CLIENT_STATE_READY_FOR_CONNECTION)) = CLIENT_STATE_CONNECTED \<and>
   fst (conn_ReadPacket example_env []
          (m_connection (example_client CLIENT_STATE_READY_FOR_CONNECTION))) = False"
  by (simp add: example_client_def example_env_def)

text \<open>
  Claim C1, amended. A client in READY_FOR_CONNECTION that receives a Connection packet
  becomes CONNECTED whatever \<^verbatim>\<open>ReadPacket\<close> returns; the packet is read by the
  connection, and \<open>m_lastPacketReceiveTime\<close> becomes the time of the current tick
  exactly when the read succeeds and keeps its value otherwise. No error is set.
\<close>

theorem READY_FOR_CONNECTION_Connection_packet:
  "m_state c = CLIENT_STATE_READY_FOR_CONNECTION \<Longrightarrow>
   m_state (ReceivePacket_body env (a, ConnectionPacket payload) c) = CLIENT_STATE_CONNECTED \<and>
   m_connection (ReceivePacket_body env (a, ConnectionPacket payload) c) =
     snd (conn_ReadPacket env payload (m_connection c)) \<and>
   m_lastPacketReceiveTime (ReceivePacket_body env (a, ConnectionPacket payload) c) =
     (if fst (conn_ReadPacket env payload (m_connection c))
      then time (m_timeBase c) else m_lastPacketReceiveTime c) \<and>
   m_error (ReceivePacket_body env (a, ConnectionPacket payload) c) = m_error c"
  by (simp add: Let_def split: prod.split)

theorem READY_FOR_CONNECTION_Connection_packet_witness:
  "m_state (example_client CLIENT_STATE_READY_FOR_CONNECTION) = CLIENT_STATE_READY_FOR_CONNECTION \<and>
   m_state (ReceivePacket_body example_env (Address ''::1'' 10000, ConnectionPacket [1])
              (example_client CLIENT_STATE_READY_FOR_CONNECTION)) = CLIENT_STATE_CONNECTED \<and>
   m_lastPacketReceiveTime (ReceivePacket_body example_env (Address ''::1'' 10000, ConnectionPacket [1])
              (example_client CLIENT_STATE_READY_FOR_CONNECTION)) = 2 \<and>
   m_lastPacketReceiveTime (ReceivePacket_body example_env (Address ''::1'' 10000, ConnectionPacket [])
              (example_client CLIENT_STATE_READY_FOR_CONNECTION)) = 1"
  using READY_FOR_CONNECTION_Connection_packet
          [of "example_client CLIENT_STATE_READY_FOR_CONNECTION" example_env "Address ''::1'' 10000" "[1]"]
        READY_FOR_CONNECTION_Connection_packet
          [of "example_client CLIENT_STATE_READY_FOR_CONNECTION" example_env "Address ''::1'' 10000" "[]"]
  by (simp add: example_client_def example_env_def)

subsection \<open>Validation of received packets\<close>

text \<open>
  Claim C2, as stated: every packet of the session, Connection packets included, is
  dropped unless its address and both GUIDs are the session's. It fails: a Connection
  packet from another address connects the client and refreshes its receive time, and a
  data block fragment from another address, with the session's GUIDs, reaches the
  receiver.
\<close>

theorem packets_from_another_address_accepted:
  "Address ''6.6.6.6'' 666 \<noteq> m_address (example_client CLIENT_STATE_READY_FOR_CONNECTION) \<and>
   m_state (ReceivePacket_body example_env (Address ''6.6.6.6'' 666, ConnectionPacket [1])
              (example_client CLIENT_STATE_READY_FOR_CONNECTION)) = CLIENT_STATE_CONNECTED \<and>
   m_lastPacketReceiveTime
     (ReceivePacket_body example_env (Address ''6.6.6.6'' 666, ConnectionPacket [1])
        (example_client CLIENT_STATE_READY_FOR_CONNECTION)) = 2 \<and>
   m_lastPacketReceiveTime (example_client CLIENT_STATE_READY_FOR_CONNECTION) = 1 \<and>
   m_dataBlockReceiver
     (ReceivePacket_body example_env
        (Address ''6.6.6.6'' 666, DataBlockFragmentPacket 7 9 100 1 0 100 [])
        (example_client CLIENT_STATE_SENDING_CHALLENGE_RESPONSE)) = Some 1 \<and>
   m_dataBlockReceiver (example_client CLIENT_STATE_SENDING_CHALLENGE_RESPONSE) = Some 0"
  by (simp add: example_client_def example_env_def ProcessDataBlockFragment_def SendPackets_def)

text \<open>
  Claim C2, amended. In every state, a Disconnected or a ReadyForConnection packet whose
  source address, client GUID or server GUID differs from the session's, and a
  DataBlockFragment or DataBlockFragmentAck packet whose client GUID or server GUID
  differs from the session's, leaves the client exactly as it was: no state change,
  nothing sent, no error. (A Connection packet has no GUID to compare.)
\<close>

theorem mismatching_packets_dropped:
  "(a \<noteq> m_address c \<or> cg \<noteq> m_clientGuid c \<or> sg \<noteq> m_serverGuid c \<longrightarrow>
      ReceivePacket_body env (a, DisconnectedPacket cg sg) c = c \<and>
      ReceivePacket_body env (a, ReadyForConnectionPacket cg sg) c = c) \<and>
   (cg \<noteq> m_clientGuid c \<or> sg \<noteq> m_serverGuid c \<longrightarrow>
      ReceivePacket_body env (a, DataBlockFragmentPacket cg sg bs nf fid fb fd) c = c \<and>
      ReceivePacket_body env (a, DataBlockFragmentAckPacket cg sg fid) c = c)"
  by (cases "m_state c")
     (auto simp: ProcessDisconnected_def ProcessDataBlockFragment_def ProcessDataBlockFragmentAck_def)

theorem mismatching_packets_dropped_witness:
  "ReceivePacket_body example_env (Address ''::1'' 10000, DisconnectedPacket 7 8)
     (example_client CLIENT_STATE_CONNECTED) = example_client CLIENT_STATE_CONNECTED \<and>
   ReceivePacket_body example_env (Address ''::1'' 10001, ReadyForConnectionPacket 7 9)
     (example_client CLIENT_STATE_SENDING_CHALLENGE_RESPONSE) =
       example_client CLIENT_STATE_SENDING_CHALLENGE_RESPONSE \<and>
   ReceivePacket_body example_env (Address ''::1'' 10000, DataBlockFragmentPacket 6 9 100 1 0 100 [])
     (example_client CLIENT_STATE_SENDING_CLIENT_DATA) = example_client CLIENT_STATE_SENDING_CLIENT_DATA \<and>
   ReceivePacket_body example_env (Address ''::1'' 10000, DataBlockFragmentAckPacket 7 10 0)
     (example_client CLIENT_STATE_SENDING_CLIENT_DATA) = example_client CLIENT_STATE_SENDING_CLIENT_DATA"
  using mismatching_packets_dropped
          [of "Address ''::1'' 10000" "example_client CLIENT_STATE_CONNECTED" 7 8 example_env]
        mismatching_packets_dropped
          [of "Address ''::1'' 10001" "example_client CLIENT_STATE_SENDING_CHALLENGE_RESPONSE" 7 9 example_env]
        mismatching_packets_dropped
          [of "Address ''::1'' 10000" "example_client CLIENT_STATE_SENDING_CLIENT_DATA" 6 9 example_env 100 1 0 100 "[]"]
        mismatching_packets_dropped
          [of "Address ''::1'' 10000" "example_client CLIENT_STATE_SENDING_CLIENT_DATA" 7 10 example_env 100 1 0 100 "[]"]
  by (simp add: example_client_def)

subsection \<open>The error invariant\<close>

text \<open>
  Every operation that returns keeps the invariant: \<^verbatim>\<open>Connect( address )\<close> and
  \<^verbatim>\<open>Disconnect\<close> establish it, as does \<^verbatim>\<open>Connect( hostname )\<close> when it
  returns, and \<^verbatim>\<open>Update\<close> preserves it.
\<close>

lemma Disconnect_state_error:
  "m_state (Disconnect env c) = CLIENT_STATE_DISCONNECTED" "m_error (Disconnect env c) = m_error c"
  by (simp_all add: Disconnect_def IsDisconnected_def ClearStateData_def Let_def)

lemma inv_Disconnect: "error_only_when_disconnected (Disconnect env c)"
  by (simp add: error_only_when_disconnected_def Disconnect_state_error)

lemma inv_DisconnectAndSetError:
  "error_only_when_disconnected (DisconnectAndSetError env e x c)"
  by (simp add: error_only_when_disconnected_def DisconnectAndSetError_def Disconnect_state_error)

lemma inv_Connect_address: "error_only_when_disconnected (Connect_address env g a c)"
  by (simp add: error_only_when_disconnected_def Connect_address_def ClearError_def)

lemma inv_Connect_hostname:
  assumes "Connect_hostname env g h c = Inr c'"
  shows "error_only_when_disconnected c'"
proof (cases "parse_address env h")
  case (Some a)
  then show ?thesis
    using assms by (auto simp: Connect_hostname_def Let_def inv_Connect_address)
next
  case None
  show ?thesis
  proof (cases "PROTOCOL_USE_RESOLVER env")
    case False
    then show ?thesis
      using assms None by (auto simp: Connect_hostname_def Let_def inv_DisconnectAndSetError)
  next
    case True
    then show ?thesis
      using assms None
      by (auto simp: Connect_hostname_def Let_def error_only_when_disconnected_def ClearError_def
            DisconnectAndSetError_def Disconnect_def IsDisconnected_def ClearStateData_def
          split: option.splits if_splits)
  qed
qed

lemma inv_UpdateResolver:
  assumes "error_only_when_disconnected c" and "UpdateResolver env g c = Inr c'"
  shows "error_only_when_disconnected c'"
proof -
  let ?c1 = "c\<lparr>m_resolver := map_option (res_Update env (m_timeBase c)) (m_resolver c)\<rparr>"
  have 1: "error_only_when_disconnected ?c1"
    using assms(1) by (simp add: error_only_when_disconnected_def)
  have "c' = ?c1 \<or> (\<exists>e x. c' = DisconnectAndSetError env e x ?c1) \<or>
        (\<exists>a. c' = Connect_address env g a ?c1)"
    using assms(2)
    by (auto simp: UpdateResolver_def Let_def split: if_splits option.splits)
  then show ?thesis
    using 1 by (auto simp: inv_DisconnectAndSetError inv_Connect_address)
qed

lemma inv_UpdateConnection:
  assumes "error_only_when_disconnected c"
  shows "error_only_when_disconnected (UpdateConnection env c)"
proof -
  have "error_only_when_disconnected (c\<lparr>m_connection := x\<rparr>)" for x
    using assms by (simp add: error_only_when_disconnected_def)
  then show ?thesis
    using assms by (simp add: UpdateConnection_def Let_def inv_DisconnectAndSetError)
qed

lemma UpdateSendPackets_state_error:
  "m_state (UpdateSendPackets env c) = m_state c" "m_error (UpdateSendPackets env c) = m_error c"
  by (cases "m_state c"; simp add: UpdateSendPackets_def Let_def split: prod.split)+

lemma inv_UpdateSendPackets:
  assumes "error_only_when_disconnected c"
  shows "error_only_when_disconnected (UpdateSendPackets env c)"
  using assms by (simp add: error_only_when_disconnected_def UpdateSendPackets_state_error)

lemma inv_UpdateNetworkInterface:
  assumes "error_only_when_disconnected c"
  shows "error_only_when_disconnected (UpdateNetworkInterface env c)"
  using assms by (simp add: error_only_when_disconnected_def UpdateNetworkInterface_def)

lemma inv_ProcessDataBlockFragment:
  assumes "error_only_when_disconnected c"
  shows "error_only_when_disconnected (ProcessDataBlockFragment env cg sg bs nf fid fb fd c)"
proof -
  have "error_only_when_disconnected (c\<lparr>m_dataBlockReceiver := x, m_networkInterface := y\<rparr>)" for x y
    using assms by (simp add: error_only_when_disconnected_def)
  then show ?thesis
    using assms
    by (simp add: ProcessDataBlockFragment_def Let_def inv_DisconnectAndSetError
          split: option.split prod.split)
qed

lemma inv_ProcessDataBlockFragmentAck:
  assumes "error_only_when_disconnected c"
  shows "error_only_when_disconnected (ProcessDataBlockFragmentAck env cg sg fid c)"
  using assms
  by (simp add: ProcessDataBlockFragmentAck_def error_only_when_disconnected_def split: option.split)

lemma inv_ProcessDisconnected:
  assumes "error_only_when_disconnected c"
  shows "error_only_when_disconnected (ProcessDisconnected env a cg sg c)"
  using assms by (simp add: ProcessDisconnected_def inv_DisconnectAndSetError)

lemma inv_ReceivePacket_body:
  assumes "error_only_when_disconnected c"
  shows "error_only_when_disconnected (ReceivePacket_body env ap c)"
proof (cases ap)
  case (Pair a p)
  have e: "m_state c \<noteq> CLIENT_STATE_DISCONNECTED \<Longrightarrow> m_error c = CLIENT_ERROR_NONE"
    using assms by (auto simp: error_only_when_disconnected_def)
  show ?thesis
    unfolding Pair
    by (cases p; cases "m_state c")
       (use assms e in \<open>auto simp: inv_ProcessDisconnected inv_ProcessDataBlockFragment
          inv_ProcessDataBlockFragmentAck inv_DisconnectAndSetError Let_def
          split: prod.split
          intro: error_only_when_disconnected_def [THEN iffD2]\<close>)
qed


lemma inv_ReceivePackets_loop:
  assumes "error_only_when_disconnected c"
  shows "error_only_when_disconnected (ReceivePackets_loop env queue c)"
  using assms
proof (induction queue arbitrary: c)
  case Nil
  then show ?case by simp
next
  case (Cons ap queue)
  have "error_only_when_disconnected
          (c\<lparr>m_networkInterface := (m_networkInterface c)\<lparr>inbound := queue\<rparr>\<rparr>)"
    using Cons.prems by (simp add: error_only_when_disconnected_def)
  then have "error_only_when_disconnected
          (ReceivePacket_body env ap
             (c\<lparr>m_networkInterface := (m_networkInterface c)\<lparr>inbound := queue\<rparr>\<rparr>))"
    by (rule inv_ReceivePacket_body)
  then show ?case
    by (simp add: Cons.IH)
qed

lemma inv_UpdateSendClientData:
  assumes "error_only_when_disconnected c" and "UpdateSendClientData env c = Inr c'"
  shows "error_only_when_disconnected c'"
  using assms
  by (auto simp: UpdateSendClientData_def error_only_when_disconnected_def Let_def
      split: if_splits option.splits prod.splits)

lemma inv_UpdateTimeout:
  assumes "error_only_when_disconnected c"
  shows "error_only_when_disconnected (UpdateTimeout env c)"
  using assms by (simp add: UpdateTimeout_def Let_def inv_DisconnectAndSetError)

lemma inv_Update:
  assumes "error_only_when_disconnected c" and "Update env g tb c = Inr c'"
  shows "error_only_when_disconnected c'"
proof -
  have 0: "error_only_when_disconnected (c\<lparr>m_timeBase := tb\<rparr>)"
    using assms(1) by (simp add: error_only_when_disconnected_def)
  obtain c1 c2 where c1: "(if PROTOCOL_USE_RESOLVER env
                           then UpdateResolver env g (c\<lparr>m_timeBase := tb\<rparr>)
                           else Inr (c\<lparr>m_timeBase := tb\<rparr>)) = Inr c1"
    and c2: "UpdateSendClientData env
               (UpdateReceivePackets env
                  (UpdateNetworkInterface env
                     (UpdateSendPackets env (UpdateConnection env c1)))) = Inr c2"
    and c': "c' = UpdateTimeout env c2"
    using assms(2) by (auto simp: Update_def bind_fault_def split: sum.splits)
  have 1: "error_only_when_disconnected c1"
    using c1 0 inv_UpdateResolver by (auto split: if_splits)
  have "error_only_when_disconnected
          (UpdateReceivePackets env
             (UpdateNetworkInterface env (UpdateSendPackets env (UpdateConnection env c1))))"
    unfolding UpdateReceivePackets_def
    by (intro inv_ReceivePackets_loop inv_UpdateNetworkInterface inv_UpdateSendPackets
          inv_UpdateConnection 1)
  then show ?thesis
    unfolding c' using c2 by (intro inv_UpdateTimeout) (rule inv_UpdateSendClientData)
qed

lemma error_only_when_disconnected_preserved:
  "error_only_when_disconnected (Connect_address env g a c) \<and>
   error_only_when_disconnected (Disconnect env c) \<and>
   (Connect_hostname env g h c = Inr c' \<longrightarrow> error_only_when_disconnected c') \<and>
   (error_only_when_disconnected c \<and> Update env g tb c = Inr c' \<longrightarrow>
      error_only_when_disconnected c')"
  using inv_Connect_address [of env g a c] inv_Disconnect [of env c]
    inv_Connect_hostname [of env g h c c'] inv_Update [of c env g tb c']
  by blast

text \<open>
  Claim C3 says that an error is never latched outside DISCONNECTED, and that every path
  that sets an error disconnects and ends there. One path does not: with the resolver
  compiled in, none configured and a hostname that is no address,
  \<^verbatim>\<open>Connect( const char * )\<close> sets MISSING_RESOLVER and does not return. It goes
  on to call through the null resolver pointer, the statement before the one that sets
  RESOLVING_HOSTNAME, so the operation does not end in DISCONNECTED with its error.
\<close>

theorem Connect_hostname_missing_resolver:
  "Connect_hostname example_env 42 ''example.com'' (example_client CLIENT_STATE_DISCONNECTED)
     = Inl NullResolverDereference"
  by (simp add: Connect_hostname_def example_env_def example_client_def ClearError_def
        Disconnect_def IsDisconnected_def DisconnectAndSetError_def)

subsection \<open>Timeout\<close>

text \<open>
  Claim C4, as stated: \<^verbatim>\<open>UpdateTimeout\<close> sets CONNECTION_TIMED_OUT exactly when
  \<open>m_lastPacketReceiveTime + \<tau> < now\<close>. It fails for a DISCONNECTED client: the
  time is long past (\<open>1 + 5 < 100\<close>, in exact and in \<^verbatim>\<open>double\<close> arithmetic) and no
  error is set.
\<close>

theorem disconnected_client_never_times_out:
  "m_lastPacketReceiveTime (expired_client CLIENT_STATE_DISCONNECTED)
     + timeout_of (expired_client CLIENT_STATE_DISCONNECTED)
     < time (m_timeBase (expired_client CLIENT_STATE_DISCONNECTED)) \<and>
   double_add (m_lastPacketReceiveTime (expired_client CLIENT_STATE_DISCONNECTED))
     (timeout_of (expired_client CLIENT_STATE_DISCONNECTED))
     < time (m_timeBase (expired_client CLIENT_STATE_DISCONNECTED)) \<and>
   m_error (UpdateTimeout example_env (expired_client CLIENT_STATE_DISCONNECTED)) = CLIENT_ERROR_NONE"
  by (simp add: expired_client_def example_client_def example_config_def timeout_of_def
        UpdateTimeout_def IsDisconnected_def fp_eval)

text \<open>
  Claim C4, amended. For a client that is not DISCONNECTED, \<^verbatim>\<open>UpdateTimeout\<close>
  disconnects (one Disconnected packet is sent) with error CONNECTION_TIMED_OUT and the
  state held before the call as extended error exactly when the \<^verbatim>\<open>double\<close> sum of
  \<open>m_lastPacketReceiveTime\<close> and \<open>\<tau>\<close>, rounded as the code computes it, is less
  than the time of the tick, with \<open>\<tau>\<close> the connected timeout when CONNECTED and the
  connecting timeout otherwise; a DISCONNECTED client, and a client whose time has not
  run out, is left as it was. \<^verbatim>\<open>Connect( address )\<close> does not change
  \<open>m_lastPacketReceiveTime\<close>, so the timeout runs from the last received packet;
  \<^verbatim>\<open>Connect( hostname )\<close> leaves it alone as well when the name parses as an address
  or the resolver is compiled out, and sets it to the time of the last tick when it
  starts resolving the name.
\<close>

theorem UpdateTimeout_effect:
  "(m_state c \<noteq> CLIENT_STATE_DISCONNECTED \<and>
    double_add (m_lastPacketReceiveTime c) (timeout_of c) < time (m_timeBase c) \<longrightarrow>
      m_state (UpdateTimeout env c) = CLIENT_STATE_DISCONNECTED \<and>
      m_error (UpdateTimeout env c) = CLIENT_ERROR_CONNECTION_TIMED_OUT \<and>
      m_extendedError (UpdateTimeout env c) = of_nat (state_rank (m_state c)) \<and>
      outbound (m_networkInterface (UpdateTimeout env c)) =
        outbound (m_networkInterface c) @
          [(m_address c, DisconnectedPacket (m_clientGuid c) (m_serverGuid c))]) \<and>
   (m_state c = CLIENT_STATE_DISCONNECTED \<or>
    \<not> double_add (m_lastPacketReceiveTime c) (timeout_of c) < time (m_timeBase c) \<longrightarrow>
      UpdateTimeout env c = c) \<and>
   m_lastPacketReceiveTime (Connect_address env new_guid address c) = m_lastPacketReceiveTime c \<and>
   (\<forall>c'. Connect_hostname env new_guid hostname c = Inr c' \<longrightarrow>
      m_lastPacketReceiveTime c' =
        (if parse_address env hostname = None \<and> PROTOCOL_USE_RESOLVER env
         then time (m_timeBase c) else m_lastPacketReceiveTime c))"
proof -
  have 1: "m_state c \<noteq> CLIENT_STATE_DISCONNECTED \<and>
    double_add (m_lastPacketReceiveTime c) (timeout_of c) < time (m_timeBase c) \<longrightarrow>
      m_state (UpdateTimeout env c) = CLIENT_STATE_DISCONNECTED \<and>
      m_error (UpdateTimeout env c) = CLIENT_ERROR_CONNECTION_TIMED_OUT \<and>
      m_extendedError (UpdateTimeout env c) = of_nat (state_rank (m_state c)) \<and>
      outbound (m_networkInterface (UpdateTimeout env c)) =
        outbound (m_networkInterface c) @
          [(m_address c, DisconnectedPacket (m_clientGuid c) (m_serverGuid c))]"
    by (auto simp: UpdateTimeout_def timeout_of_def IsDisconnected_def IsConnected_def
          DisconnectAndSetError_def Disconnect_def ClearStateData_def SendPacket_def Let_def)
  have 2: "m_state c = CLIENT_STATE_DISCONNECTED \<or>
    \<not> double_add (m_lastPacketReceiveTime c) (timeout_of c) < time (m_timeBase c) \<longrightarrow>
      UpdateTimeout env c = c"
    by (auto simp: UpdateTimeout_def timeout_of_def IsDisconnected_def IsConnected_def Let_def)
  have 3: "m_lastPacketReceiveTime (Connect_address env new_guid address c) =
           m_lastPacketReceiveTime c" for address c
    by (simp add: Connect_address_def ClearError_def Disconnect_def ClearStateData_def Let_def)
  have 4: "m_lastPacketReceiveTime c' =
        (if parse_address env hostname = None \<and> PROTOCOL_USE_RESOLVER env
         then time (m_timeBase c) else m_lastPacketReceiveTime c)"
    if "Connect_hostname env new_guid hostname c = Inr c'" for c'
    using that
    by (auto simp: Connect_hostname_def 3 ClearError_def DisconnectAndSetError_def Disconnect_def
          ClearStateData_def Let_def split: option.splits if_splits)
  from 1 2 3 4 show ?thesis by blast
qed

theorem UpdateTimeout_effect_witness:
  "m_state (UpdateTimeout example_env (expired_client CLIENT_STATE_SENDING_CONNECTION_REQUEST))
     = CLIENT_STATE_DISCONNECTED \<and>
   m_extendedError (UpdateTimeout example_env (expired_client CLIENT_STATE_SENDING_CONNECTION_REQUEST))
     = 2 \<and>
   UpdateTimeout example_env (example_client CLIENT_STATE_CONNECTED) = example_client CLIENT_STATE_CONNECTED \<and>
   m_lastPacketReceiveTime rounding_client + timeout_of rounding_client
     < time (m_timeBase rounding_client) \<and>
   UpdateTimeout example_env rounding_client = rounding_client \<and>
   Connect_hostname example_env 42 ''example.com'' resolving_client =
     Inr (resolving_client\<lparr>m_state := CLIENT_STATE_RESOLVING_HOSTNAME,
            m_lastPacketReceiveTime := 2, m_hostname := ''example.com''\<rparr>) \<and>
   m_lastPacketReceiveTime resolving_client = 1"
proof -
  have r: "m_lastPacketReceiveTime rounding_client + timeout_of rounding_client
             < time (m_timeBase rounding_client)"
    "\<not> double_add (m_lastPacketReceiveTime rounding_client) (timeout_of rounding_client)
         < time (m_timeBase rounding_client)"
    using double_sum_rounds_up
    by (simp_all add: rounding_client_def example_client_def example_config_def timeout_of_def)
  have h: "Connect_hostname example_env 42 ''example.com'' resolving_client =
     Inr (resolving_client\<lparr>m_state := CLIENT_STATE_RESOLVING_HOSTNAME,
            m_lastPacketReceiveTime := 2, m_hostname := ''example.com''\<rparr>)"
    by (simp add: Connect_hostname_def resolving_client_def example_client_def example_env_def
          ClearError_def Disconnect_def IsDisconnected_def Let_def)
  have e: "double_add 1 5 < (100 :: real)" "\<not> double_add 1 10 < (2 :: real)"
    by (simp_all add: fp_eval)
  show ?thesis
    using UpdateTimeout_effect
            [of "expired_client CLIENT_STATE_SENDING_CONNECTION_REQUEST" example_env]
          UpdateTimeout_effect [of "example_client CLIENT_STATE_CONNECTED" example_env]
          UpdateTimeout_effect [of rounding_client example_env]
          UpdateTimeout_effect [of resolving_client example_env 42 "Address [] 0" "''example.com''"]
          r h e
    by (simp add: expired_client_def example_client_def example_config_def timeout_of_def
          resolving_client_def)
qed

subsection \<open>Data block packets and the receive time\<close>

lemma Disconnect_lastPacketReceiveTime [simp]:
  "m_lastPacketReceiveTime (Disconnect env c) = m_lastPacketReceiveTime c"
  by (simp add: Disconnect_def ClearStateData_def Let_def)

lemma DisconnectAndSetError_lastPacketReceiveTime [simp]:
  "m_lastPacketReceiveTime (DisconnectAndSetError env e x c) = m_lastPacketReceiveTime c"
  by (simp add: DisconnectAndSetError_def)

lemma ProcessDataBlockFragment_lastPacketReceiveTime:
  "m_lastPacketReceiveTime (ProcessDataBlockFragment env cg sg bs nf fid fb fd c) =
     m_lastPacketReceiveTime c"
  by (simp add: ProcessDataBlockFragment_def Let_def split: option.split prod.split)

lemma ProcessDataBlockFragmentAck_lastPacketReceiveTime:
  "m_lastPacketReceiveTime (ProcessDataBlockFragmentAck env cg sg fid c) =
     m_lastPacketReceiveTime c"
  by (simp add: ProcessDataBlockFragmentAck_def split: option.split)

lemma ProcessDisconnected_lastPacketReceiveTime:
  "m_lastPacketReceiveTime (ProcessDisconnected env a cg sg c) = m_lastPacketReceiveTime c"
  by (simp add: ProcessDisconnected_def)

lemma body_refresh_only:
  "m_lastPacketReceiveTime (ReceivePacket_body env (a, p) c) \<noteq> m_lastPacketReceiveTime c \<Longrightarrow>
   refreshes_receive_time env c p"
  by (cases p; cases "m_state c")
     (auto simp: ProcessDataBlockFragment_lastPacketReceiveTime
        ProcessDataBlockFragmentAck_lastPacketReceiveTime
        ProcessDisconnected_lastPacketReceiveTime Let_def split: if_splits prod.splits)

lemma body_disconnected:
  assumes "is_data_block_packet p" and "m_state c = CLIENT_STATE_DISCONNECTED"
  shows "ReceivePacket_body env (a, p) c = c"
  using assms by (cases p) simp_all

lemma loop_disconnected:
  assumes "\<forall>ap \<in> set queue. is_data_block_packet (snd ap)"
    and "m_state c = CLIENT_STATE_DISCONNECTED"
  shows "m_state (ReceivePackets_loop env queue c) = CLIENT_STATE_DISCONNECTED \<and>
         m_error (ReceivePackets_loop env queue c) = m_error c \<and>
         m_lastPacketReceiveTime (ReceivePackets_loop env queue c) = m_lastPacketReceiveTime c"
  using assms
proof (induction queue arbitrary: c)
  case Nil
  then show ?case by simp
next
  case (Cons ap queue)
  obtain a p where ap: "ap = (a, p)" by (cases ap)
  let ?c1 = "c\<lparr>m_networkInterface := (m_networkInterface c)\<lparr>inbound := queue\<rparr>\<rparr>"
  have p: "is_data_block_packet p" using Cons.prems ap by simp
  have b: "ReceivePacket_body env (a, p) ?c1 = ?c1"
    using Cons.prems(2) by (intro body_disconnected [OF p]) simp
  show ?case
    using Cons.IH [of ?c1] Cons.prems by (simp add: ap b)
qed

lemma receiver_errs_head:
  assumes "is_data_block_packet p"
  shows "receiver_errs env cg sg r ((a, p) # queue) =
           (receiver_errs env cg sg r [(a, p)] \<or>
            receiver_errs env cg sg (receiver_after env cg sg r p) queue)"
  using assms by (cases p; cases r; cases queue) (auto simp: Let_def)

lemma body_data_block_error:
  assumes "is_data_block_packet p"
    and "m_state c = CLIENT_STATE_SENDING_CHALLENGE_RESPONSE \<or>
         m_state c = CLIENT_STATE_SENDING_CLIENT_DATA \<or>
         m_state c = CLIENT_STATE_READY_FOR_CONNECTION"
    and "receiver_errs env (m_clientGuid c) (m_serverGuid c) (m_dataBlockReceiver c) [(a, p)]"
  shows "m_state (ReceivePacket_body env (a, p) c) = CLIENT_STATE_DISCONNECTED \<and>
         m_error (ReceivePacket_body env (a, p) c) = CLIENT_ERROR_DATA_BLOCK_ERROR \<and>
         m_lastPacketReceiveTime (ReceivePacket_body env (a, p) c) = m_lastPacketReceiveTime c"
  using assms
  by (cases p; cases "m_dataBlockReceiver c")
     (auto simp: ProcessDataBlockFragment_def DisconnectAndSetError_def Disconnect_def
        IsDisconnected_def ClearStateData_def Let_def case_prod_beta split: if_splits)

lemma body_data_block_same_session:
  assumes "is_data_block_packet p"
    and "m_state c = CLIENT_STATE_SENDING_CHALLENGE_RESPONSE \<or>
         m_state c = CLIENT_STATE_SENDING_CLIENT_DATA \<or>
         m_state c = CLIENT_STATE_READY_FOR_CONNECTION"
    and "\<not> receiver_errs env (m_clientGuid c) (m_serverGuid c) (m_dataBlockReceiver c) [(a, p)]"
  shows "same_session c (ReceivePacket_body env (a, p) c) \<and>
         m_clientGuid (ReceivePacket_body env (a, p) c) = m_clientGuid c \<and>
         m_serverGuid (ReceivePacket_body env (a, p) c) = m_serverGuid c \<and>
         m_dataBlockReceiver (ReceivePacket_body env (a, p) c) =
           receiver_after env (m_clientGuid c) (m_serverGuid c) (m_dataBlockReceiver c) p"
  using assms
  by (cases p; cases "m_dataBlockReceiver c")
     (auto simp: same_session_def ProcessDataBlockFragment_def ProcessDataBlockFragmentAck_def
        Let_def case_prod_beta split: option.splits if_splits)

lemma loop_data_block:
  assumes "\<forall>ap \<in> set queue. is_data_block_packet (snd ap)"
    and "m_state c = CLIENT_STATE_SENDING_CHALLENGE_RESPONSE \<or>
         m_state c = CLIENT_STATE_SENDING_CLIENT_DATA \<or>
         m_state c = CLIENT_STATE_READY_FOR_CONNECTION"
  shows "m_lastPacketReceiveTime (ReceivePackets_loop env queue c) = m_lastPacketReceiveTime c \<and>
         (if receiver_errs env (m_clientGuid c) (m_serverGuid c) (m_dataBlockReceiver c) queue
          then m_state (ReceivePackets_loop env queue c) = CLIENT_STATE_DISCONNECTED \<and>
               m_error (ReceivePackets_loop env queue c) = CLIENT_ERROR_DATA_BLOCK_ERROR
          else same_session c (ReceivePackets_loop env queue c))"
  using assms
proof (induction queue arbitrary: c)
  case Nil
  then show ?case
    by (cases "m_dataBlockReceiver c") (simp_all add: same_session_def)
next
  case (Cons ap queue)
  obtain a p where ap: "ap = (a, p)" by (cases ap)
  define c0 where "c0 = c\<lparr>m_networkInterface := (m_networkInterface c)\<lparr>inbound := queue\<rparr>\<rparr>"
  define c1 where "c1 = ReceivePacket_body env (a, p) c0"
  have p: "is_data_block_packet p" using Cons.prems ap by simp
  have q: "\<forall>ap \<in> set queue. is_data_block_packet (snd ap)" using Cons.prems by simp
  have f0: "m_state c0 = m_state c" "m_clientGuid c0 = m_clientGuid c"
    "m_serverGuid c0 = m_serverGuid c" "m_dataBlockReceiver c0 = m_dataBlockReceiver c"
    "m_lastPacketReceiveTime c0 = m_lastPacketReceiveTime c" "same_session c c0"
    by (simp_all add: c0_def same_session_def)
  have st0: "m_state c0 = CLIENT_STATE_SENDING_CHALLENGE_RESPONSE \<or>
             m_state c0 = CLIENT_STATE_SENDING_CLIENT_DATA \<or>
             m_state c0 = CLIENT_STATE_READY_FOR_CONNECTION"
    using Cons.prems(2) by (simp add: f0)
  have loop: "ReceivePackets_loop env (ap # queue) c = ReceivePackets_loop env queue c1"
    by (simp add: ap c0_def c1_def)
  have head: "receiver_errs env (m_clientGuid c) (m_serverGuid c) (m_dataBlockReceiver c)
                (ap # queue) =
              (receiver_errs env (m_clientGuid c) (m_serverGuid c) (m_dataBlockReceiver c) [(a, p)] \<or>
               receiver_errs env (m_clientGuid c) (m_serverGuid c)
                 (receiver_after env (m_clientGuid c) (m_serverGuid c) (m_dataBlockReceiver c) p)
                 queue)"
    unfolding ap by (rule receiver_errs_head [OF p])
  show ?case
  proof (cases "receiver_errs env (m_clientGuid c) (m_serverGuid c) (m_dataBlockReceiver c) [(a, p)]")
    case True
    then have e0: "receiver_errs env (m_clientGuid c0) (m_serverGuid c0) (m_dataBlockReceiver c0)
                     [(a, p)]"
      by (simp add: f0)
    have 1: "m_state c1 = CLIENT_STATE_DISCONNECTED"
      "m_error c1 = CLIENT_ERROR_DATA_BLOCK_ERROR"
      "m_lastPacketReceiveTime c1 = m_lastPacketReceiveTime c"
      using body_data_block_error [OF p st0 e0] by (simp_all add: c1_def f0)
    show ?thesis
      unfolding loop head using loop_disconnected [OF q 1(1), of env] 1 True by simp
  next
    case False
    then have e0: "\<not> receiver_errs env (m_clientGuid c0) (m_serverGuid c0)
                       (m_dataBlockReceiver c0) [(a, p)]"
      by (simp add: f0)
    have 1: "same_session c0 c1" "m_clientGuid c1 = m_clientGuid c"
      "m_serverGuid c1 = m_serverGuid c"
      "m_dataBlockReceiver c1 =
         receiver_after env (m_clientGuid c) (m_serverGuid c) (m_dataBlockReceiver c) p"
      using body_data_block_same_session [OF p st0 e0] by (simp_all add: c1_def f0)
    have st1: "m_state c1 = CLIENT_STATE_SENDING_CHALLENGE_RESPONSE \<or>
               m_state c1 = CLIENT_STATE_SENDING_CLIENT_DATA \<or>
               m_state c1 = CLIENT_STATE_READY_FOR_CONNECTION"
      using 1(1) st0 by (simp add: same_session_def)
    have ih: "m_lastPacketReceiveTime (ReceivePackets_loop env queue c1) =
                m_lastPacketReceiveTime c1 \<and>
              (if receiver_errs env (m_clientGuid c1) (m_serverGuid c1) (m_dataBlockReceiver c1)
                    queue
               then m_state (ReceivePackets_loop env queue c1) = CLIENT_STATE_DISCONNECTED \<and>
                    m_error (ReceivePackets_loop env queue c1) = CLIENT_ERROR_DATA_BLOCK_ERROR
               else same_session c1 (ReceivePackets_loop env queue c1))"
      by (rule Cons.IH [OF q st1])
    have l1: "m_lastPacketReceiveTime c1 = m_lastPacketReceiveTime c"
      using 1(1) f0 by (simp add: same_session_def)
    have tr: "same_session c1 c' \<Longrightarrow> same_session c c'" for c'
      using 1(1) f0(6) by (simp add: same_session_def)
    show ?thesis
      unfolding loop head using ih l1 tr False unfolding 1(2,3,4) by auto
  qed
qed

lemma UpdateSendPackets_inbound:
  "inbound (m_networkInterface (UpdateSendPackets env c)) = inbound (m_networkInterface c)"
  by (cases "m_state c")
     (auto simp: UpdateSendPackets_def SendPacket_def Let_def split: prod.split)

lemma UpdateSendPackets_session:
  "m_clientGuid (UpdateSendPackets env c) = m_clientGuid c \<and>
   m_serverGuid (UpdateSendPackets env c) = m_serverGuid c \<and>
   m_dataBlockReceiver (UpdateSendPackets env c) = m_dataBlockReceiver c"
  by (cases "m_state c")
     (auto simp: UpdateSendPackets_def SendPacket_def Let_def split: prod.split)

lemma UpdateSendPackets_resolver:
  "UpdateSendPackets env (c\<lparr>m_resolver := v\<rparr>) = (UpdateSendPackets env c)\<lparr>m_resolver := v\<rparr>"
  by (cases "m_state c")
     (auto simp: UpdateSendPackets_def SendPacket_def IsConnected_def Let_def split: prod.split)

lemma Update_data_block_only:
  assumes st: "m_state c = CLIENT_STATE_SENDING_CHALLENGE_RESPONSE \<or>
               m_state c = CLIENT_STATE_SENDING_CLIENT_DATA \<or>
               m_state c = CLIENT_STATE_READY_FOR_CONNECTION"
    and sender: "m_state c = CLIENT_STATE_SENDING_CLIENT_DATA \<longrightarrow> m_dataBlockSender c \<noteq> None"
    and queue: "\<forall>ap \<in> set (tick_inbound env tb c). is_data_block_packet (snd ap)"
  shows "\<exists>c6. Update env new_guid tb c = Inr (UpdateTimeout env c6) \<and>
              m_lastPacketReceiveTime c6 = m_lastPacketReceiveTime c \<and>
              (if receiver_errs env (m_clientGuid c) (m_serverGuid c) (m_dataBlockReceiver c)
                    (tick_inbound env tb c)
               then m_state c6 = CLIENT_STATE_DISCONNECTED \<and>
                    m_error c6 = CLIENT_ERROR_DATA_BLOCK_ERROR
               else m_state c6 \<noteq> CLIENT_STATE_DISCONNECTED \<and>
                    m_state c6 \<noteq> CLIENT_STATE_CONNECTED \<and>
                    m_timeBase c6 = tb \<and> m_config c6 = m_config c)"
proof -
  let ?c0 = "c\<lparr>m_timeBase := tb\<rparr>"
  define c1 where "c1 = ?c0\<lparr>m_resolver := map_option (res_Update env tb) (m_resolver c)\<rparr>"
  define c1' where "c1' = (if PROTOCOL_USE_RESOLVER env then c1 else ?c0)"
  have r: "(if PROTOCOL_USE_RESOLVER env then UpdateResolver env new_guid ?c0 else Inr ?c0) = Inr c1'"
    using st by (auto simp: UpdateResolver_def c1_def c1'_def Let_def)
  define c4 where "c4 = UpdateNetworkInterface env (UpdateSendPackets env (UpdateConnection env c1'))"
  have conn: "UpdateConnection env c1' = c1'" "UpdateConnection env ?c0 = ?c0"
    using st by (auto simp: UpdateConnection_def c1'_def c1_def)
  have sp: "same_session c1' (UpdateSendPackets env c1')"
    using st
    by (auto simp: UpdateSendPackets_def same_session_def Let_def c1'_def c1_def IsConnected_def)
  have c4: "same_session c1' c4"
    using sp by (simp add: c4_def conn UpdateNetworkInterface_def same_session_def)
  have tb4: "m_timeBase (UpdateSendPackets env c1') = tb" "m_timeBase (UpdateSendPackets env ?c0) = tb"
    using st
    by (auto simp: UpdateSendPackets_def Let_def c1'_def c1_def IsConnected_def)
  have ni: "m_networkInterface (UpdateSendPackets env c1') =
            m_networkInterface (UpdateSendPackets env ?c0)"
    by (simp add: c1'_def c1_def UpdateSendPackets_resolver)
  have in4: "inbound (m_networkInterface c4) = tick_inbound env tb c"
    by (simp add: c4_def tick_inbound_def conn UpdateNetworkInterface_def tb4 ni)
  have g4: "m_clientGuid c4 = m_clientGuid c" "m_serverGuid c4 = m_serverGuid c"
    "m_dataBlockReceiver c4 = m_dataBlockReceiver c"
    unfolding c4_def conn(1) using UpdateSendPackets_session [of env c1']
    by (auto simp: UpdateNetworkInterface_def c1'_def c1_def)
  have st4: "m_state c4 = CLIENT_STATE_SENDING_CHALLENGE_RESPONSE \<or>
             m_state c4 = CLIENT_STATE_SENDING_CLIENT_DATA \<or>
             m_state c4 = CLIENT_STATE_READY_FOR_CONNECTION"
    using c4 st by (simp add: same_session_def c1'_def c1_def)
  have q4: "\<forall>ap \<in> set (inbound (m_networkInterface c4)). is_data_block_packet (snd ap)"
    using queue by (simp add: in4)
  define c5 where "c5 = UpdateReceivePackets env c4"
  have c5: "m_lastPacketReceiveTime c5 = m_lastPacketReceiveTime c4 \<and>
            (if receiver_errs env (m_clientGuid c) (m_serverGuid c) (m_dataBlockReceiver c)
                  (tick_inbound env tb c)
             then m_state c5 = CLIENT_STATE_DISCONNECTED \<and>
                  m_error c5 = CLIENT_ERROR_DATA_BLOCK_ERROR
             else same_session c4 c5)"
    using loop_data_block [OF q4 st4, of env]
    unfolding c5_def UpdateReceivePackets_def g4 in4 .
  have l5: "m_lastPacketReceiveTime c5 = m_lastPacketReceiveTime c"
    using c5 c4 by (simp add: same_session_def c1'_def c1_def)
  show ?thesis
  proof (cases "receiver_errs env (m_clientGuid c) (m_serverGuid c) (m_dataBlockReceiver c)
                  (tick_inbound env tb c)")
    case True
    then have d: "m_state c5 = CLIENT_STATE_DISCONNECTED"
      "m_error c5 = CLIENT_ERROR_DATA_BLOCK_ERROR"
      using c5 by simp_all
    have "UpdateSendClientData env c5 = Inr c5"
      using d by (simp add: UpdateSendClientData_def)
    then have "Update env new_guid tb c = Inr (UpdateTimeout env c5)"
      unfolding Update_def r by (simp add: bind_fault_def c4_def c5_def)
    then show ?thesis
      using True d l5 by auto
  next
    case False
    then have c15: "same_session c1' c5"
      using c4 c5 by (simp add: same_session_def)
    have f5: "m_state c5 = m_state c" "m_timeBase c5 = tb" "m_config c5 = m_config c"
      "m_dataBlockSender c5 = None \<longleftrightarrow> m_dataBlockSender c = None"
      using c15 by (auto simp: same_session_def c1'_def c1_def)
    have "\<exists>c6. UpdateSendClientData env c5 = Inr c6 \<and>
            m_state c6 \<noteq> CLIENT_STATE_DISCONNECTED \<and> m_state c6 \<noteq> CLIENT_STATE_CONNECTED \<and>
            m_lastPacketReceiveTime c6 = m_lastPacketReceiveTime c \<and> m_timeBase c6 = tb \<and>
            m_config c6 = m_config c"
    proof (cases "m_state c5 = CLIENT_STATE_SENDING_CLIENT_DATA")
      case True
      then obtain s where "m_dataBlockSender c5 = Some s"
        using sender f5 by auto
      then show ?thesis
        using True f5 l5
        by (cases "snd_SendCompleted env s"; cases "snd_Update env tb s")
           (simp_all add: UpdateSendClientData_def)
    next
      case False
      then show ?thesis
        using st f5 l5 by (auto simp: UpdateSendClientData_def)
    qed
    then obtain c6 where c6: "UpdateSendClientData env c5 = Inr c6"
      and f6: "m_state c6 \<noteq> CLIENT_STATE_DISCONNECTED" "m_state c6 \<noteq> CLIENT_STATE_CONNECTED"
        "m_lastPacketReceiveTime c6 = m_lastPacketReceiveTime c" "m_timeBase c6 = tb"
        "m_config c6 = m_config c"
      by blast
    have "Update env new_guid tb c = Inr (UpdateTimeout env c6)"
      unfolding Update_def r
      using c6 by (simp add: bind_fault_def c4_def c5_def)
    with f6 False show ?thesis by auto
  qed
qed

text \<open>
  Claim C10. Neither \<^verbatim>\<open>ProcessDataBlockFragment\<close> nor
  \<^verbatim>\<open>ProcessDataBlockFragmentAck\<close> changes \<open>m_lastPacketReceiveTime\<close>, and a
  received packet that changes it is a connection challenge, a ReadyForConnection packet
  or a Connection packet read successfully. Hence a client past the challenge and not
  yet connected that receives only data block packets in a tick keeps its receive time
  over the whole \<^verbatim>\<open>Update\<close>, whatever the data block receiver does with them. If one
  of the fragments makes the receiver report an error, the \<^verbatim>\<open>Update\<close> returns with
  the client DISCONNECTED and the error DATA_BLOCK_ERROR. Otherwise the \<^verbatim>\<open>Update\<close> at
  which the \<^verbatim>\<open>double\<close> sum of \<open>m_lastPacketReceiveTime\<close> and \<open>connectingTimeOut\<close>
  is less than the time of the tick returns with the client DISCONNECTED and the error
  CONNECTION_TIMED_OUT, and before that time the client stays in its connecting states.
  The rounded sum is within half a unit in the last place of the exact one, so the
  client is timed out at the latest once the time exceeds
  \<open>m_lastPacketReceiveTime + connectingTimeOut\<close> by more than that.
\<close>

theorem data_block_packets_keep_receive_time:
  "m_lastPacketReceiveTime (ProcessDataBlockFragment env cg sg bs nf fid fb fd c) =
     m_lastPacketReceiveTime c \<and>
   m_lastPacketReceiveTime (ProcessDataBlockFragmentAck env cg sg fid c) =
     m_lastPacketReceiveTime c \<and>
   (m_lastPacketReceiveTime (ReceivePacket_body env (a, p) c) \<noteq> m_lastPacketReceiveTime c \<longrightarrow>
      refreshes_receive_time env c p) \<and>
   (only_data_block_packets env tb c \<longrightarrow>
      (\<exists>c'. Update env new_guid tb c = Inr c' \<and>
         m_lastPacketReceiveTime c' = m_lastPacketReceiveTime c \<and>
         (if receiver_errs env (m_clientGuid c) (m_serverGuid c) (m_dataBlockReceiver c)
               (tick_inbound env tb c)
          then m_state c' = CLIENT_STATE_DISCONNECTED \<and>
               m_error c' = CLIENT_ERROR_DATA_BLOCK_ERROR
          else if double_add (m_lastPacketReceiveTime c) (connectingTimeOut (m_config c)) < time tb
          then m_state c' = CLIENT_STATE_DISCONNECTED \<and>
               m_error c' = CLIENT_ERROR_CONNECTION_TIMED_OUT
          else m_state c' \<noteq> CLIENT_STATE_DISCONNECTED \<and> m_state c' \<noteq> CLIENT_STATE_CONNECTED))) \<and>
   (only_data_block_packets env tb c \<and>
    \<not> receiver_errs env (m_clientGuid c) (m_serverGuid c) (m_dataBlockReceiver c)
        (tick_inbound env tb c) \<and>
    m_lastPacketReceiveTime c + connectingTimeOut (m_config c) +
      2 powi (max (binade (m_lastPacketReceiveTime c + connectingTimeOut (m_config c))) (- 1022)
                - 52) / 2 < time tb \<longrightarrow>
      (\<exists>c'. Update env new_guid tb c = Inr c' \<and>
         m_state c' = CLIENT_STATE_DISCONNECTED \<and>
         m_error c' = CLIENT_ERROR_CONNECTION_TIMED_OUT))"
proof -
  have "\<exists>c'. Update env new_guid tb c = Inr c' \<and>
         m_lastPacketReceiveTime c' = m_lastPacketReceiveTime c \<and>
         (if receiver_errs env (m_clientGuid c) (m_serverGuid c) (m_dataBlockReceiver c)
               (tick_inbound env tb c)
          then m_state c' = CLIENT_STATE_DISCONNECTED \<and>
               m_error c' = CLIENT_ERROR_DATA_BLOCK_ERROR
          else if double_add (m_lastPacketReceiveTime c) (connectingTimeOut (m_config c)) < time tb
          then m_state c' = CLIENT_STATE_DISCONNECTED \<and>
               m_error c' = CLIENT_ERROR_CONNECTION_TIMED_OUT
          else m_state c' \<noteq> CLIENT_STATE_DISCONNECTED \<and> m_state c' \<noteq> CLIENT_STATE_CONNECTED)"
    if h: "only_data_block_packets env tb c"
  proof -
    from h have st: "m_state c = CLIENT_STATE_SENDING_CHALLENGE_RESPONSE \<or>
                     m_state c = CLIENT_STATE_SENDING_CLIENT_DATA \<or>
                     m_state c = CLIENT_STATE_READY_FOR_CONNECTION"
      and sender: "m_state c = CLIENT_STATE_SENDING_CLIENT_DATA \<longrightarrow> m_dataBlockSender c \<noteq> None"
      and queue: "\<forall>ap \<in> set (tick_inbound env tb c). is_data_block_packet (snd ap)"
      unfolding only_data_block_packets_def by (auto simp: list_all_iff)
    from Update_data_block_only [OF st sender queue, of new_guid]
    obtain c6 where u: "Update env new_guid tb c = Inr (UpdateTimeout env c6)"
      and l6: "m_lastPacketReceiveTime c6 = m_lastPacketReceiveTime c"
      and f6: "if receiver_errs env (m_clientGuid c) (m_serverGuid c) (m_dataBlockReceiver c)
                    (tick_inbound env tb c)
               then m_state c6 = CLIENT_STATE_DISCONNECTED \<and>
                    m_error c6 = CLIENT_ERROR_DATA_BLOCK_ERROR
               else m_state c6 \<noteq> CLIENT_STATE_DISCONNECTED \<and>
                    m_state c6 \<noteq> CLIENT_STATE_CONNECTED \<and>
                    m_timeBase c6 = tb \<and> m_config c6 = m_config c"
      by blast
    show ?thesis
      using l6 f6
      by (auto simp: u UpdateTimeout_def IsDisconnected_def IsConnected_def
            DisconnectAndSetError_def Disconnect_def ClearStateData_def Let_def split: if_splits)
  qed
  then have 4: "only_data_block_packets env tb c \<longrightarrow>
      (\<exists>c'. Update env new_guid tb c = Inr c' \<and>
         m_lastPacketReceiveTime c' = m_lastPacketReceiveTime c \<and>
         (if receiver_errs env (m_clientGuid c) (m_serverGuid c) (m_dataBlockReceiver c)
               (tick_inbound env tb c)
          then m_state c' = CLIENT_STATE_DISCONNECTED \<and>
               m_error c' = CLIENT_ERROR_DATA_BLOCK_ERROR
          else if double_add (m_lastPacketReceiveTime c) (connectingTimeOut (m_config c)) < time tb
          then m_state c' = CLIENT_STATE_DISCONNECTED \<and>
               m_error c' = CLIENT_ERROR_CONNECTION_TIMED_OUT
          else m_state c' \<noteq> CLIENT_STATE_DISCONNECTED \<and> m_state c' \<noteq> CLIENT_STATE_CONNECTED))"
    by blast
  have 5: "only_data_block_packets env tb c \<and>
    \<not> receiver_errs env (m_clientGuid c) (m_serverGuid c) (m_dataBlockReceiver c)
        (tick_inbound env tb c) \<and>
    m_lastPacketReceiveTime c + connectingTimeOut (m_config c) +
      2 powi (max (binade (m_lastPacketReceiveTime c + connectingTimeOut (m_config c))) (- 1022)
                - 52) / 2 < time tb \<longrightarrow>
      (\<exists>c'. Update env new_guid tb c = Inr c' \<and>
         m_state c' = CLIENT_STATE_DISCONNECTED \<and>
         m_error c' = CLIENT_ERROR_CONNECTION_TIMED_OUT)"
    using 4 double_add_less [of "m_lastPacketReceiveTime c" "connectingTimeOut (m_config c)" "time tb"]
    by auto
  have 3: "m_lastPacketReceiveTime (ReceivePacket_body env (a, p) c) \<noteq> m_lastPacketReceiveTime c \<longrightarrow>
      refreshes_receive_time env c p"
    using body_refresh_only [of env a p c] by blast
  from 3 4 5 show ?thesis
    by (simp only: ProcessDataBlockFragment_lastPacketReceiveTime
          ProcessDataBlockFragmentAck_lastPacketReceiveTime simp_thms)
qed

theorem data_block_packets_keep_receive_time_witness:
  "only_data_block_packets example_env \<lparr>time = 100, deltaTime = 1\<rparr> fragment_client \<and>
   \<not> receiver_errs example_env 7 9 (Some 0) (tick_inbound example_env \<lparr>time = 100, deltaTime = 1\<rparr>
        fragment_client) \<and>
   double_add (m_lastPacketReceiveTime fragment_client) (connectingTimeOut (m_config fragment_client))
     < 100 \<and>
   m_lastPacketReceiveTime fragment_client + connectingTimeOut (m_config fragment_client) +
     2 powi (max (binade (m_lastPacketReceiveTime fragment_client +
                          connectingTimeOut (m_config fragment_client))) (- 1022) - 52) / 2 < 100 \<and>
   (\<exists>c'. Update example_env 42 \<lparr>time = 100, deltaTime = 1\<rparr> fragment_client = Inr c' \<and>
      m_lastPacketReceiveTime c' = 1 \<and>
      m_state c' = CLIENT_STATE_DISCONNECTED \<and> m_error c' = CLIENT_ERROR_CONNECTION_TIMED_OUT) \<and>
   only_data_block_packets example_env \<lparr>time = 100, deltaTime = 1\<rparr> failing_fragment_client \<and>
   receiver_errs example_env 7 9 (Some 0) (tick_inbound example_env \<lparr>time = 100, deltaTime = 1\<rparr>
        failing_fragment_client) \<and>
   (\<exists>c'. Update example_env 42 \<lparr>time = 100, deltaTime = 1\<rparr> failing_fragment_client = Inr c' \<and>
      m_state c' = CLIENT_STATE_DISCONNECTED \<and> m_error c' = CLIENT_ERROR_DATA_BLOCK_ERROR)"
proof -
  let ?tb = "\<lparr>time = 100, deltaTime = 1\<rparr>"
  have sendrate: "float_of_real (double_div 1 10) = 13421773 / 2 ^ 27" "double_add 0 1 = 1"
    by (simp_all add: fp_eval)
  have t: "tick_inbound example_env ?tb fragment_client =
             [(Address ''::1'' 10000, DataBlockFragmentPacket 7 9 100 1 0 100 []),
              (Address ''::1'' 10000, DataBlockFragmentAckPacket 7 9 0)]"
    by (simp add: tick_inbound_def UpdateNetworkInterface_def UpdateSendPackets_def
          UpdateConnection_def IsConnected_def fragment_client_def example_client_def
          example_config_def example_env_def sendrate Let_def)
  have t': "tick_inbound example_env ?tb failing_fragment_client =
             [(Address ''::1'' 10000, DataBlockFragmentPacket 7 9 100 3 0 100 []),
              (Address ''::1'' 10000, DataBlockFragmentPacket 7 9 100 3 1 100 []),
              (Address ''::1'' 10000, DataBlockFragmentPacket 7 9 100 3 2 100 [])]"
    by (simp add: tick_inbound_def UpdateNetworkInterface_def UpdateSendPackets_def
          UpdateConnection_def IsConnected_def failing_fragment_client_def example_client_def
          example_config_def example_env_def sendrate Let_def)
  have h: "only_data_block_packets example_env ?tb fragment_client"
    unfolding only_data_block_packets_def t
    by (simp add: fragment_client_def example_client_def)
  have h': "only_data_block_packets example_env ?tb failing_fragment_client"
    unfolding only_data_block_packets_def t'
    by (simp add: failing_fragment_client_def example_client_def)
  have e: "\<not> receiver_errs example_env 7 9 (Some 0) (tick_inbound example_env ?tb fragment_client)"
    unfolding t by (simp add: example_env_def)
  have e': "receiver_errs example_env 7 9 (Some 0)
              (tick_inbound example_env ?tb failing_fragment_client)"
    unfolding t' by (simp add: example_env_def)
  have l: "double_add (m_lastPacketReceiveTime fragment_client)
             (connectingTimeOut (m_config fragment_client)) < 100"
    by (simp add: fragment_client_def example_client_def example_config_def fp_eval)
  have l': "m_lastPacketReceiveTime fragment_client + connectingTimeOut (m_config fragment_client) +
     2 powi (max (binade (m_lastPacketReceiveTime fragment_client +
                          connectingTimeOut (m_config fragment_client))) (- 1022) - 52) / 2 < 100"
    by (simp add: fragment_client_def example_client_def example_config_def fp_eval)
  have f: "m_clientGuid fragment_client = 7" "m_serverGuid fragment_client = 9"
    "m_dataBlockReceiver fragment_client = Some 0" "m_lastPacketReceiveTime fragment_client = 1"
    "m_clientGuid failing_fragment_client = 7" "m_serverGuid failing_fragment_client = 9"
    "m_dataBlockReceiver failing_fragment_client = Some 0"
    by (simp_all add: fragment_client_def failing_fragment_client_def example_client_def)
  show ?thesis
    using data_block_packets_keep_receive_time
            [of example_env 0 0 0 0 0 0 "[]" fragment_client "Address [] 0" "ConnectionRequestPacket 0"
               ?tb 42]
          data_block_packets_keep_receive_time
            [of example_env 0 0 0 0 0 0 "[]" failing_fragment_client "Address [] 0"
               "ConnectionRequestPacket 0" ?tb 42]
          h h' e e' l l'
    unfolding f by auto
qed

section \<open>Theorems about the lockstep input pipeline\<close>

subsection \<open>Frames from the playout delay buffer\<close>

lemma frame_due_iff: "frame_due t b = (frame_time (start_time b) (frame b) \<le> t)"
  by (simp add: frame_due_def not_less)

lemma GetFrames_loop_spec:
  "\<exists>n. n \<le> k \<and> n \<le> length (input_queue b) \<and>
        snd (GetFrames_loop k t b out) = out @ take n (input_queue b) \<and>
        fst (GetFrames_loop k t b out) =
          b\<lparr>input_queue := drop n (input_queue b), frame := frame b + of_nat n\<rparr> \<and>
        (\<forall>j<n. frame_time (start_time b) (frame b + of_nat j) \<le> t) \<and>
        (n = k \<or> n = length (input_queue b) \<or>
         \<not> frame_time (start_time b) (frame b + of_nat n) \<le> t)"
proof (induction k arbitrary: b out)
  case 0
  show ?case by (rule exI [of _ 0]) simp
next
  case (Suc k)
  show ?case
  proof (cases "frame_due t b \<and> input_queue b \<noteq> []")
    case False
    then show ?thesis
      by (intro exI [of _ 0]) (auto simp: frame_due_iff split: list.split)
  next
    case True
    then obtain x q where q: "input_queue b = x # q"
      by (cases "input_queue b") auto
    let ?b1 = "b\<lparr>input_queue := q, frame := frame b + 1\<rparr>"
    from Suc.IH [of ?b1 "out @ [x]"] obtain n where n:
      "n \<le> k" "n \<le> length q"
      "snd (GetFrames_loop k t ?b1 (out @ [x])) = (out @ [x]) @ take n q"
      "fst (GetFrames_loop k t ?b1 (out @ [x])) =
         ?b1\<lparr>input_queue := drop n q, frame := frame b + 1 + of_nat n\<rparr>"
      "\<forall>j<n. frame_time (start_time b) (frame b + 1 + of_nat j) \<le> t"
      "n = k \<or> n = length q \<or> \<not> frame_time (start_time b) (frame b + 1 + of_nat n) \<le> t"
      by auto
    have due: "\<forall>j<Suc n. frame_time (start_time b) (frame b + of_nat j) \<le> t"
    proof (intro allI impI)
      fix j assume "j < Suc n"
      show "frame_time (start_time b) (frame b + of_nat j) \<le> t"
      proof (cases j)
        case 0
        then show ?thesis using True by (simp add: frame_due_iff)
      next
        case (Suc i)
        then have "i < n" using \<open>j < Suc n\<close> by simp
        then show ?thesis using n(5) Suc by (simp add: add.assoc)
      qed
    qed
    show ?thesis
      using True q n(1-4,6) due
      by (intro exI [of _ "Suc n"]) (auto simp: add.assoc)
  qed
qed

lemma GetFrames_loop_unfold:
  "GetFrames_loop k t b frame_input =
     (if k = 0 then (b, frame_input)
      else if \<not> frame_due t b then (b, frame_input)
      else case input_queue b of
             [] \<Rightarrow> (b, frame_input)
           | x # queue \<Rightarrow>
               GetFrames_loop (k - 1) t (b\<lparr>input_queue := queue, frame := frame b + 1\<rparr>)
                 (frame_input @ [x]))"
  by (cases k) (simp_all split: list.split)

lemma frame_time_value:
  "frame_time start f =
     double_add
       (double_add start
          (double_mul (double_add (double_of_real (real (unat f))) (1 / 2)) (8947849 / 2 ^ 29)))
       (1 / 4)"
  by (simp add: frame_time_def float_one_sixtieth PlayoutDelay_def)

text \<open>
  Claim C7, as stated: a frame is emitted exactly while
  \<open>t \<ge> start_time + (frame + 0.5)/60 + PlayoutDelay\<close> and the queue is not empty. It
  fails where the rounded threshold of the code is above the exact one. Nine inputs are
  added at time 0 and \<^verbatim>\<open>GetFrames\<close> is called at time 0.375 with \<open>MaxSimFrames = 8\<close>:
  frame 7 is due by the claim (\<open>0 + 7.5/60 + 0.25 = 0.375\<close>) and two inputs are
  queued, yet the code emits the frames 0 to 6 only, since it computes
  \<open>7.5 * 8947849/2^29 + 0.25 > 0.375\<close>.
\<close>

theorem GetFrames_holds_back_due_frame:
  "playout_run due_calls (LockstepPlayoutDelayBuffer_init, []) =
     Inr (\<lparr>stopped = False, start_time = 0, most_recent_input = 9, frame = 7,
           input_queue = [17, 18]\<rparr>, [10, 11, 12, 13, 14, 15, 16]) \<and>
   playout_due (3 / 8) 0 7"
proof -
  have d: "playout_due (3 / 8) 0 7"
    by (simp add: playout_due_def)
  have ft: "frame_time 0 0 \<le> 3 / 8" "frame_time 0 1 \<le> 3 / 8" "frame_time 0 2 \<le> 3 / 8"
    "frame_time 0 3 \<le> 3 / 8" "frame_time 0 4 \<le> 3 / 8" "frame_time 0 5 \<le> 3 / 8"
    "frame_time 0 6 \<le> 3 / 8" "3 / 8 < frame_time 0 7"
    by (simp_all add: frame_time_value fp_eval)
  have a: "AddInputs 0 9 9 [10, 11, 12, 13, 14, 15, 16, 17, 18::nat] LockstepPlayoutDelayBuffer_init =
             Inr \<lparr>stopped = False, start_time = 0, most_recent_input = 9, frame = 0,
                  input_queue = [10, 11, 12, 13, 14, 15, 16, 17, 18]\<rparr>"
    by (simp add: LockstepPlayoutDelayBuffer_init_def AddInputs_def AddInputs_body_def Let_def
          upt_rec)
  have g: "GetFrames 8 (3 / 8)
             \<lparr>stopped = False, start_time = 0, most_recent_input = 9, frame = 0,
              input_queue = [10, 11, 12, 13, 14, 15, 16, 17, 18::nat]\<rparr> =
           (\<lparr>stopped = False, start_time = 0, most_recent_input = 9, frame = 7,
             input_queue = [17, 18]\<rparr>, [10, 11, 12, 13, 14, 15, 16])"
    using ft by (simp add: GetFrames_def GetFrames_loop_unfold frame_due_iff not_le)
  show ?thesis
    using d by (simp add: due_calls_def bind_fault_def a g)
qed

text \<open>
  Claim C7, amended. A stopped buffer emits nothing and is left as it is. Otherwise
  \<^verbatim>\<open>GetFrames\<close> at time \<open>t\<close> emits \<open>n\<close> frames, with \<open>n\<close> at most
  \<open>MaxSimFrames\<close> and at most the length of the queue: the emitted inputs are the first
  \<open>n\<close> of the queue in order, they are removed from the queue, and the frame counter
  is advanced by \<open>n\<close>. Every emitted frame was due, which is that \<open>t\<close> is not less
  than the threshold the code computes at its frame number, and the loop stopped only
  because \<open>MaxSimFrames\<close> frames were emitted, the queue was empty, or \<open>t\<close> is less
  than the threshold of the next frame. The threshold is computed in floating point:
  the frame number as a \<^verbatim>\<open>double\<close> plus 0.5, times the \<^verbatim>\<open>float\<close> quotient
  \<^verbatim>\<open>1.0f / 60.0f\<close>, which is \<open>8947849 / 2^29\<close> and not \<open>1/60\<close>, added to the start
  time, plus 0.25, each of the four \<^verbatim>\<open>double\<close> operations rounded to nearest.
\<close>

theorem GetFrames_emits:
  "(stopped b \<longrightarrow> GetFrames MaxSimFrames t b = (b, [])) \<and>
   (\<not> stopped b \<longrightarrow>
      (\<exists>n. num_frames (GetFrames MaxSimFrames t b) = n \<and>
         n \<le> nat MaxSimFrames \<and> n \<le> length (input_queue b) \<and>
         snd (GetFrames MaxSimFrames t b) = take n (input_queue b) \<and>
         fst (GetFrames MaxSimFrames t b) =
           b\<lparr>input_queue := drop n (input_queue b), frame := frame b + of_nat n\<rparr> \<and>
         (\<forall>j<n. frame_time (start_time b) (frame b + of_nat j) \<le> t) \<and>
         (n = nat MaxSimFrames \<or> n = length (input_queue b) \<or>
          t < frame_time (start_time b) (frame b + of_nat n)))) \<and>
   frame_time start f =
     double_add
       (double_add start
          (double_mul (double_add (double_of_real (real (unat f))) (1 / 2)) (8947849 / 2 ^ 29)))
       (1 / 4)"
proof -
  obtain n where n: "n \<le> nat MaxSimFrames" "n \<le> length (input_queue b)"
      "snd (GetFrames_loop (nat MaxSimFrames) t b []) = [] @ take n (input_queue b)"
      "fst (GetFrames_loop (nat MaxSimFrames) t b []) =
          b\<lparr>input_queue := drop n (input_queue b), frame := frame b + of_nat n\<rparr>"
      "\<forall>j<n. frame_time (start_time b) (frame b + of_nat j) \<le> t"
      "n = nat MaxSimFrames \<or> n = length (input_queue b) \<or>
         \<not> frame_time (start_time b) (frame b + of_nat n) \<le> t"
    using GetFrames_loop_spec [of "nat MaxSimFrames" b t "[]"] by blast
  have nf: "\<not> stopped b \<Longrightarrow> num_frames (GetFrames MaxSimFrames t b) = n"
    using n(2,3) by (simp add: GetFrames_def num_frames_def)
  have 1: "stopped b \<longrightarrow> GetFrames MaxSimFrames t b = (b, [])"
    by (simp add: GetFrames_def)
  have 2: "\<not> stopped b \<longrightarrow>
      (\<exists>n. num_frames (GetFrames MaxSimFrames t b) = n \<and>
         n \<le> nat MaxSimFrames \<and> n \<le> length (input_queue b) \<and>
         snd (GetFrames MaxSimFrames t b) = take n (input_queue b) \<and>
         fst (GetFrames MaxSimFrames t b) =
           b\<lparr>input_queue := drop n (input_queue b), frame := frame b + of_nat n\<rparr> \<and>
         (\<forall>j<n. frame_time (start_time b) (frame b + of_nat j) \<le> t) \<and>
         (n = nat MaxSimFrames \<or> n = length (input_queue b) \<or>
          t < frame_time (start_time b) (frame b + of_nat n)))"
    using n nf by (auto simp: GetFrames_def not_le intro!: exI [of _ n])
  from 1 2 frame_time_value [of start f] show ?thesis by blast
qed

theorem GetFrames_emits_witness:
  "\<not> stopped example_buffer \<and>
   GetFrames 4 (21 / 16) example_buffer =
     (\<lparr>stopped = False, start_time = 1, most_recent_input = 5, frame = 4, input_queue = [4]\<rparr>,
      [2, 3]) \<and>
   (\<exists>n. num_frames (GetFrames 4 (21 / 16) example_buffer) = n \<and> n \<le> 4 \<and>
      snd (GetFrames 4 (21 / 16) example_buffer) = take n (input_queue example_buffer) \<and>
      21 / 16 < frame_time (start_time example_buffer) (frame example_buffer + of_nat n))"
proof -
  have s: "\<not> stopped example_buffer"
    by (simp add: example_buffer_def)
  have ft: "frame_time 1 2 \<le> 21 / 16" "frame_time 1 3 \<le> 21 / 16" "21 / 16 < frame_time 1 4"
    by (simp_all add: frame_time_value fp_eval)
  have v: "GetFrames 4 (21 / 16) example_buffer =
     (\<lparr>stopped = False, start_time = 1, most_recent_input = 5, frame = 4, input_queue = [4]\<rparr>,
      [2, 3])"
    using ft by (simp add: example_buffer_def GetFrames_def GetFrames_loop_unfold frame_due_iff not_le)
  have d: "21 / 16 < frame_time (start_time example_buffer) (frame example_buffer + of_nat 2)"
    using ft by (simp add: example_buffer_def)
  have n: "num_frames (GetFrames 4 (21 / 16) example_buffer) = 2"
    by (simp add: v num_frames_def)
  show ?thesis
    using GetFrames_emits [of example_buffer 4 "21 / 16"] s v d n
    by (auto simp: example_buffer_def)
qed

subsection \<open>Contiguous accumulation of inputs\<close>

lemma AddInputs_body_numbered:
  assumes "numbered (b, emitted)" and "i < length xs"
  shows "numbered (AddInputs_body (tag_inputs sq n xs) (sq - word_of_int n) b i, emitted)"
  using assms
  by (simp add: numbered_def AddInputs_body_def tag_inputs_def Let_def)

lemma AddInputs_fold_numbered:
  assumes "numbered (b, emitted)" and "\<forall>i \<in> set is. i < length xs"
  shows "numbered (foldl (AddInputs_body (tag_inputs sq n xs) (sq - word_of_int n)) b is, emitted)"
  using assms
  by (induction "is" arbitrary: b) (simp_all add: AddInputs_body_numbered)

lemma AddInputs_numbered:
  assumes "numbered (b, emitted)" and "AddInputs t sq n (tag_inputs sq n xs) b = Inr b'"
  shows "numbered (b', emitted)"
proof -
  from assms(2) have n: "0 < n" "n \<le> int (length xs)"
    and b': "b' = foldl (AddInputs_body (tag_inputs sq n xs) (sq - word_of_int n))
                   (if stopped b then b\<lparr>start_time := t, stopped := False\<rparr> else b) [0..<nat n]"
    by (auto simp: AddInputs_def tag_inputs_def Let_def split: if_splits)
  have "numbered (if stopped b then b\<lparr>start_time := t, stopped := False\<rparr> else b, emitted)"
    using assms(1) by (simp add: numbered_def)
  then show ?thesis
    unfolding b' using n by (intro AddInputs_fold_numbered) auto
qed

lemma GetFrames_loop_keeps:
  "snd (GetFrames_loop k t b out) @ input_queue (fst (GetFrames_loop k t b out)) =
     out @ input_queue b \<and>
   most_recent_input (fst (GetFrames_loop k t b out)) = most_recent_input b"
  by (induction k t b out rule: GetFrames_loop.induct) (auto split: list.split)

lemma GetFrames_numbered:
  assumes "numbered (b, emitted)" and "GetFrames m t b = (b', frame_input)"
  shows "numbered (b', emitted @ frame_input)"
proof (cases "stopped b")
  case True
  then show ?thesis using assms by (simp add: GetFrames_def)
next
  case False
  then have "frame_input @ input_queue b' = input_queue b" "most_recent_input b' = most_recent_input b"
    using assms(2) GetFrames_loop_keeps [of "nat m" t b "[]"] by (auto simp: GetFrames_def)
  then show ?thesis
    using assms(1) unfolding numbered_def
    by (metis append.assoc fst_conv snd_conv)
qed

lemma playout_step_numbered:
  assumes "numbered st" and "playout_step (tagged_call call) st = Inr st'"
  shows "numbered st'"
proof (cases st)
  case (Pair b emitted)
  show ?thesis
  proof (cases call)
    case (AddInputs_call t sq n xs)
    then show ?thesis
      using assms Pair AddInputs_numbered [of b emitted t sq n xs]
      by (auto simp: bind_fault_def split: sum.splits)
  next
    case (GetFrames_call m t)
    then show ?thesis
      using assms Pair GetFrames_numbered [of b emitted m t]
      by (auto split: prod.splits)
  qed
qed

lemma playout_run_numbered:
  assumes "numbered st" and "playout_run (map tagged_call calls) st = Inr st'"
  shows "numbered st'"
  using assms
proof (induction calls arbitrary: st)
  case Nil
  then show ?case by simp
next
  case (Cons call calls)
  then obtain st1 where "playout_step (tagged_call call) st = Inr st1"
    "playout_run (map tagged_call calls) st1 = Inr st'"
    by (auto simp: bind_fault_def split: sum.splits)
  then show ?case
    using Cons.IH Cons.prems(1) playout_step_numbered by blast
qed


lemma untag_simps [simp]:
  "stopped (untag_buffer b) = stopped b"
  "start_time (untag_buffer b) = start_time b"
  "most_recent_input (untag_buffer b) = most_recent_input b"
  "frame (untag_buffer b) = frame b"
  "input_queue (untag_buffer b) = map snd (input_queue b)"
  by (simp_all add: untag_buffer_def)

lemma AddInputs_body_untag:
  assumes "i < length xs"
  shows "AddInputs_body xs f (untag_buffer b) i =
         untag_buffer (AddInputs_body (tag_inputs sq n xs) f b i)"
  using assms by (simp add: AddInputs_body_def tag_inputs_def Let_def untag_buffer_def)

lemma AddInputs_fold_untag:
  assumes "\<forall>i \<in> set is. i < length xs"
  shows "foldl (AddInputs_body xs f) (untag_buffer b) is =
         untag_buffer (foldl (AddInputs_body (tag_inputs sq n xs) f) b is)"
  using assms
proof (induction "is" arbitrary: b)
  case Nil
  show ?case by simp
next
  case (Cons i "is")
  have "AddInputs_body xs f (untag_buffer b) i =
        untag_buffer (AddInputs_body (tag_inputs sq n xs) f b i)"
    using Cons.prems by (intro AddInputs_body_untag) simp
  then show ?case
    using Cons.IH Cons.prems by simp
qed

lemma AddInputs_untag:
  "AddInputs t sq n xs (untag_buffer b) =
   map_sum id untag_buffer (AddInputs t sq n (tag_inputs sq n xs) b)"
proof (cases "0 < n \<and> n \<le> int (length xs)")
  case False
  then show ?thesis by (auto simp: AddInputs_def tag_inputs_def)
next
  case True
  define b1 where "b1 = (if stopped b then b\<lparr>start_time := t, stopped := False\<rparr> else b)"
  have 1: "(if stopped (untag_buffer b)
            then (untag_buffer b)\<lparr>start_time := t, stopped := False\<rparr> else untag_buffer b)
           = untag_buffer b1"
    by (simp add: untag_buffer_def b1_def)
  have 2: "\<forall>i \<in> set [0..<nat n]. i < length xs" using True by auto
  have len: "length (tag_inputs sq n xs) = length xs" by (simp add: tag_inputs_def)
  have l: "AddInputs t sq n xs (untag_buffer b) =
           Inr (foldl (AddInputs_body xs (sq - word_of_int n)) (untag_buffer b1) [0..<nat n])"
    using True unfolding AddInputs_def Let_def 1 by simp
  have r: "AddInputs t sq n (tag_inputs sq n xs) b =
           Inr (foldl (AddInputs_body (tag_inputs sq n xs) (sq - word_of_int n)) b1 [0..<nat n])"
    using True unfolding AddInputs_def Let_def len b1_def by simp
  show ?thesis
    unfolding l r by (simp add: AddInputs_fold_untag [OF 2])
qed

lemma frame_due_untag [simp]: "frame_due t (untag_buffer b) = frame_due t b"
  by (simp add: frame_due_def)

lemma GetFrames_loop_untag:
  "GetFrames_loop k t (untag_buffer b) (map snd out) =
   (untag_buffer (fst (GetFrames_loop k t b out)), map snd (snd (GetFrames_loop k t b out)))"
proof (induction k arbitrary: b out)
  case 0
  show ?case by simp
next
  case (Suc k)
  show ?case
  proof (cases "frame_due t b")
    case False
    then show ?thesis by simp
  next
    case True
    show ?thesis
    proof (cases "input_queue b")
      case Nil
      then show ?thesis using True by simp
    next
      case (Cons x q)
      let ?b1 = "b\<lparr>input_queue := q, frame := frame b + 1\<rparr>"
      have u: "(untag_buffer b)\<lparr>input_queue := map snd q, frame := frame (untag_buffer b) + 1\<rparr> =
               untag_buffer ?b1"
        by (simp add: untag_buffer_def)
      have "GetFrames_loop (Suc k) t (untag_buffer b) (map snd out) =
            GetFrames_loop k t (untag_buffer ?b1) (map snd (out @ [x]))"
        using True Cons by (simp del: untag_simps add: untag_simps(5) u)
      also have "\<dots> = (untag_buffer (fst (GetFrames_loop k t ?b1 (out @ [x]))),
                        map snd (snd (GetFrames_loop k t ?b1 (out @ [x]))))"
        by (rule Suc.IH)
      finally show ?thesis using True Cons by simp
    qed
  qed
qed

lemma GetFrames_untag:
  "GetFrames m t (untag_buffer b) =
   (untag_buffer (fst (GetFrames m t b)), map snd (snd (GetFrames m t b)))"
  using GetFrames_loop_untag [of "nat m" t b "[]"] by (simp add: GetFrames_def)

lemma playout_step_untag:
  "playout_step call (untag_state st) = map_sum id untag_state (playout_step (tagged_call call) st)"
proof (cases st)
  case (Pair b emitted)
  show ?thesis
  proof (cases call)
    case (AddInputs_call t sq n xs)
    then show ?thesis
      using Pair AddInputs_untag [of t sq n xs b]
      by (cases "AddInputs t sq n (tag_inputs sq n xs) b")
         (simp_all add: untag_state_def bind_fault_def)
  next
    case (GetFrames_call m t)
    then show ?thesis
      using Pair GetFrames_untag [of m t b]
      by (simp add: untag_state_def split: prod.split)
  qed
qed

lemma playout_run_untag:
  "playout_run calls (untag_state st) = map_sum id untag_state (playout_run (map tagged_call calls) st)"
proof (induction calls arbitrary: st)
  case Nil
  then show ?case by simp
next
  case (Cons call calls)
  show ?case
    using Cons.IH playout_step_untag [of call st]
    by (cases "playout_step (tagged_call call) st") (simp_all add: bind_fault_def)
qed

lemma distinct_map_of_nat_16:
  assumes "n \<le> 65536"
  shows "distinct (map (of_nat :: nat \<Rightarrow> 16 word) [0..<n])"
proof -
  have "inj_on (of_nat :: nat \<Rightarrow> 16 word) (set [0..<n])"
  proof (rule inj_onI)
    fix x y assume "x \<in> set [0..<n]" "y \<in> set [0..<n]" "(of_nat x :: 16 word) = of_nat y"
    then have "x < 2 ^ 16" "y < 2 ^ 16" "unat (of_nat x :: 16 word) = unat (of_nat y :: 16 word)"
      using assms by auto
    then show "x = y" by (simp add: unat_of_nat take_bit_nat_eq_self)
  qed
  then show ?thesis by (simp add: distinct_map)
qed


lemma playout_run_valid:
  assumes "list_all valid_call calls"
  shows "\<exists>st'. playout_run (map tagged_call calls) st = Inr st'"
  using assms
proof (induction calls arbitrary: st)
  case Nil
  show ?case by simp
next
  case (Cons call calls)
  obtain b emitted where st: "st = (b, emitted)" by (cases st)
  have "\<exists>st1. playout_step (tagged_call call) st = Inr st1"
  proof (cases call)
    case (AddInputs_call t sq n xs)
    then show ?thesis
      using Cons.prems st by (simp add: AddInputs_def tag_inputs_def bind_fault_def Let_def)
  next
    case (GetFrames_call m t)
    then show ?thesis using st by (simp split: prod.split)
  qed
  then obtain st1 where "playout_step (tagged_call call) st = Inr st1" by blast
  then show ?case
    using Cons.IH [of st1] Cons.prems by (simp add: bind_fault_def)
qed

lemma numbered_init: "numbered (LockstepPlayoutDelayBuffer_init, [])"
  by (simp add: numbered_def LockstepPlayoutDelayBuffer_init_def)

lemma untag_init:
  "untag_state (LockstepPlayoutDelayBuffer_init, []) = (LockstepPlayoutDelayBuffer_init, [])"
  by (simp add: untag_state_def untag_buffer_def LockstepPlayoutDelayBuffer_init_def)

lemma map_unat_of_nat_16:
  assumes "n \<le> 65536"
  shows "map (\<lambda>i. unat (of_nat i :: 16 word)) [0..<n] = [0..<n]"
proof (rule map_idI)
  fix i assume "i \<in> set [0..<n]"
  then have "i < 2 ^ 16" using assms by simp
  then show "unat (of_nat i :: 16 word) = i"
    by (simp add: unat_of_nat take_bit_nat_eq_self)
qed

lemma AddInputs_fold_in_order:
  assumes "k \<le> length xs"
  shows "foldl (AddInputs_body xs (most_recent_input b)) b [0..<k] =
         b\<lparr>most_recent_input := most_recent_input b + of_nat k,
           input_queue := input_queue b @ take k xs\<rparr>"
  using assms
proof (induction k)
  case 0
  show ?case by simp
next
  case (Suc k)
  then have k: "k < length xs" by simp
  have "foldl (AddInputs_body xs (most_recent_input b)) b [0..<Suc k] =
        AddInputs_body xs (most_recent_input b)
          (b\<lparr>most_recent_input := most_recent_input b + of_nat k,
             input_queue := input_queue b @ take k xs\<rparr>) k"
    using Suc by simp
  also have "\<dots> = b\<lparr>most_recent_input := most_recent_input b + of_nat (Suc k),
                     input_queue := input_queue b @ take (Suc k) xs\<rparr>"
    by (simp add: AddInputs_body_def Let_def take_Suc_conv_app_nth [OF k] add.assoc)
  finally show ?case .
qed

lemma AddInputs_in_order:
  assumes "0 < n" and "n \<le> int (length xs)" and "sq - word_of_int n = most_recent_input b"
  shows "AddInputs t sq n xs b =
         Inr ((if stopped b then b\<lparr>start_time := t, stopped := False\<rparr> else b)
                \<lparr>most_recent_input := most_recent_input b + of_nat (nat n),
                 input_queue := input_queue b @ take (nat n) xs\<rparr>)"
proof -
  define b1 where "b1 = (if stopped b then b\<lparr>start_time := t, stopped := False\<rparr> else b)"
  have f: "most_recent_input b1 = most_recent_input b" "input_queue b1 = input_queue b"
    by (simp_all add: b1_def)
  have k: "nat n \<le> length xs" using assms(1,2) by simp
  have "AddInputs t sq n xs b =
        Inr (foldl (AddInputs_body xs (most_recent_input b1)) b1 [0..<nat n])"
    using assms by (simp add: AddInputs_def Let_def b1_def)
  also have "\<dots> = Inr (b1\<lparr>most_recent_input := most_recent_input b1 + of_nat (nat n),
                           input_queue := input_queue b1 @ take (nat n) xs\<rparr>)"
    by (simp only: AddInputs_fold_in_order [OF k])
  finally show ?thesis by (simp add: f b1_def)
qed

lemma playout_run_append:
  "playout_run (calls @ calls') st = bind_fault (playout_run calls st) (playout_run calls')"
  by (induction calls arbitrary: st) (simp_all add: bind_fault_def split: sum.split)

lemma wrapping_calls_run:
  "\<exists>b. playout_run (map tagged_call (wrapping_calls k)) (LockstepPlayoutDelayBuffer_init, []) =
          Inr (b, []) \<and>
        length (input_queue b) = 256 * k \<and> most_recent_input b = of_nat (256 * k)"
proof (induction k)
  case 0
  show ?case
    by (simp add: wrapping_calls_def LockstepPlayoutDelayBuffer_init_def)
next
  case (Suc k)
  then obtain b where b:
    "playout_run (map tagged_call (wrapping_calls k)) (LockstepPlayoutDelayBuffer_init, []) =
       Inr (b, [])"
    "length (input_queue b) = 256 * k" "most_recent_input b = of_nat (256 * k)"
    by blast
  let ?sq = "of_nat (256 * (k + 1)) :: 16 word"
  let ?xs = "tag_inputs ?sq 256 (replicate 256 k)"
  have calls: "wrapping_calls (Suc k) =
               wrapping_calls k @ [AddInputs_call 0 ?sq 256 (replicate 256 k)]"
    by (simp add: wrapping_calls_def)
  have len: "length ?xs = 256" by (simp add: tag_inputs_def)
  have first: "?sq - word_of_int 256 = most_recent_input b"
    by (simp add: b(3))
  define b' where
    "b' = (if stopped b then b\<lparr>start_time := 0, stopped := False\<rparr> else b)
            \<lparr>most_recent_input := most_recent_input b + of_nat (nat 256),
             input_queue := input_queue b @ take (nat 256) ?xs\<rparr>"
  have a: "AddInputs 0 ?sq 256 ?xs b = Inr b'"
    unfolding b'_def by (rule AddInputs_in_order [OF _ _ first]) (simp_all add: tag_inputs_def)
  have step: "playout_run (map tagged_call [AddInputs_call 0 ?sq 256 (replicate 256 k)]) (b, []) =
              Inr (b', [])"
    unfolding list.map tagged_call.simps playout_run.simps playout_step.simps a
    by (simp add: bind_fault_def)
  have lb: "length (input_queue b') = 256 * Suc k" "most_recent_input b' = of_nat (256 * Suc k)"
    by (simp_all add: b'_def b(2,3) tag_inputs_def)
  have "playout_run (map tagged_call (wrapping_calls (Suc k))) (LockstepPlayoutDelayBuffer_init, []) =
        Inr (b', [])"
    unfolding calls map_append playout_run_append b(1)
    by (simp only: bind_fault_def sum.case step)
  with lb show ?case by blast
qed

text \<open>
  Claim C5, as stated: for every sequence of calls the queue and the emitted frames form
  a strictly increasing, duplicate-free sequence of sequence numbers. It fails once more
  than 65536 inputs were appended, the sequence numbers being \<^verbatim>\<open>uint16_t\<close>: after
  257 batches of 256 inputs each, added one after the other, the 65792 queued inputs
  carry the number 0 at both positions 0 and 65536.
\<close>

theorem sequence_numbers_repeat:
  "list_all valid_call (wrapping_calls 257) \<and>
   length (run_sequence_numbers (wrapping_calls 257)) = 65792 \<and>
   run_sequence_numbers (wrapping_calls 257) ! 0 = 0 \<and>
   run_sequence_numbers (wrapping_calls 257) ! 65536 = 0 \<and>
   \<not> distinct (run_sequence_numbers (wrapping_calls 257))"
proof -
  obtain b :: "(16 word \<times> nat) LockstepPlayoutDelayBuffer" where b:
    "playout_run (map tagged_call (wrapping_calls 257)) (LockstepPlayoutDelayBuffer_init, []) =
       Inr (b, [])"
    "length (input_queue b) = 256 * 257"
    using wrapping_calls_run [of 257] by blast
  have n: "numbered (b, [])"
    using playout_run_numbered [OF numbered_init b(1)] .
  have r: "run_sequence_numbers (wrapping_calls 257) = map of_nat [0..<65792]"
    using n b(2) by (simp add: run_sequence_numbers_def b(1) numbered_def)
  have v: "list_all valid_call (wrapping_calls 257)"
    by (simp add: wrapping_calls_def list_all_iff)
  have l: "length (run_sequence_numbers (wrapping_calls 257)) = 65792"
    by (simp add: r)
  have z: "run_sequence_numbers (wrapping_calls 257) ! 0 = 0"
    "run_sequence_numbers (wrapping_calls 257) ! 65536 = 0"
    by (simp_all add: r)
  have "\<not> distinct (run_sequence_numbers (wrapping_calls 257))"
  proof
    assume d: "distinct (run_sequence_numbers (wrapping_calls 257))"
    have "(run_sequence_numbers (wrapping_calls 257) ! 0 =
           run_sequence_numbers (wrapping_calls 257) ! 65536) = ((0::nat) = 65536)"
      by (rule nth_eq_iff_index_eq [OF d]) (simp_all add: l)
    then show False using z by simp
  qed
  with v l z show ?thesis by blast
qed

text \<open>
  Claim C5, amended. In \<^verbatim>\<open>AddInputs\<close> the input at index \<open>i\<close> is appended exactly
  when its sequence number equals \<open>most_recent_input\<close>, which is then incremented.
  Hence, for every sequence of valid calls of \<^verbatim>\<open>AddInputs\<close> and \<^verbatim>\<open>GetFrames\<close> on a
  new buffer, whatever the batches overlap, repeat or skip: the run does not fail; it is
  the run on the inputs tagged with their sequence numbers, tags dropped; and the frames
  emitted so far followed by the queue carry the sequence numbers 0, 1, 2, ... in order,
  each the successor of the one before in 16-bit arithmetic, with no gap. As long as no
  more than 65536 inputs were appended the numbers are 0, 1, 2, ... themselves, strictly
  increasing and with no number twice; after that the 16-bit numbers wrap around and
  repeat.
\<close>

theorem playout_sequence_contiguous:
  "AddInputs_body xs first b0 i =
     (if first + of_nat i = most_recent_input b0
      then b0\<lparr>most_recent_input := most_recent_input b0 + 1,
              input_queue := input_queue b0 @ [xs ! i]\<rparr>
      else b0) \<and>
   (list_all valid_call calls \<longrightarrow>
      (\<exists>b emitted.
         playout_run (map tagged_call calls) (LockstepPlayoutDelayBuffer_init, []) = Inr (b, emitted) \<and>
         playout_run calls (LockstepPlayoutDelayBuffer_init, []) =
           Inr (untag_buffer b, map snd emitted) \<and>
         map fst (emitted @ input_queue b) =
           map of_nat [0..<length emitted + length (input_queue b)] \<and>
         most_recent_input b = of_nat (length emitted + length (input_queue b)) \<and>
         (length emitted + length (input_queue b) \<le> 65536 \<longrightarrow>
            map (\<lambda>x. unat (fst x)) (emitted @ input_queue b) =
              [0..<length emitted + length (input_queue b)] \<and>
            distinct (map fst (emitted @ input_queue b)))))"
proof -
  have "\<exists>b emitted.
         playout_run (map tagged_call calls) (LockstepPlayoutDelayBuffer_init, []) = Inr (b, emitted) \<and>
         playout_run calls (LockstepPlayoutDelayBuffer_init, []) =
           Inr (untag_buffer b, map snd emitted) \<and>
         map fst (emitted @ input_queue b) =
           map of_nat [0..<length emitted + length (input_queue b)] \<and>
         most_recent_input b = of_nat (length emitted + length (input_queue b)) \<and>
         (length emitted + length (input_queue b) \<le> 65536 \<longrightarrow>
            map (\<lambda>x. unat (fst x)) (emitted @ input_queue b) =
              [0..<length emitted + length (input_queue b)] \<and>
            distinct (map fst (emitted @ input_queue b)))"
    if v: "list_all valid_call calls"
  proof -
    obtain b emitted where run:
      "playout_run (map tagged_call calls) (LockstepPlayoutDelayBuffer_init, []) = Inr (b, emitted)"
      using playout_run_valid [OF v] by fastforce
    have n: "numbered (b, emitted)"
      using playout_run_numbered [OF numbered_init run] .
    have u: "playout_run calls (LockstepPlayoutDelayBuffer_init, []) =
               Inr (untag_buffer b, map snd emitted)"
      using playout_run_untag [of calls "(LockstepPlayoutDelayBuffer_init, [])"]
      unfolding untag_init run by (simp add: untag_state_def)
    have m: "map fst (emitted @ input_queue b) =
               map of_nat [0..<length emitted + length (input_queue b)]"
      using n by (simp add: numbered_def)
    have d: "distinct (map fst (emitted @ input_queue b))"
      if "length emitted + length (input_queue b) \<le> 65536"
      unfolding m using that by (rule distinct_map_of_nat_16)
    have i: "map (\<lambda>x. unat (fst x)) (emitted @ input_queue b) =
               [0..<length emitted + length (input_queue b)]"
      if "length emitted + length (input_queue b) \<le> 65536"
    proof -
      have "map (\<lambda>x. unat (fst x)) (emitted @ input_queue b) =
            map unat (map fst (emitted @ input_queue b))"
        by simp
      also have "\<dots> = map (\<lambda>i. unat (of_nat i :: 16 word))
                         [0..<length emitted + length (input_queue b)]"
        unfolding m by simp
      also have "\<dots> = [0..<length emitted + length (input_queue b)]"
        using that by (rule map_unat_of_nat_16)
      finally show ?thesis .
    qed
    have mri: "most_recent_input b = of_nat (length emitted + length (input_queue b))"
      using n by (simp add: numbered_def)
    show ?thesis
      using run u m mri d i by blast
  qed
  then show ?thesis
    by (simp add: AddInputs_body_def Let_def)
qed

theorem playout_sequence_contiguous_witness:
  "list_all valid_call example_calls \<and>
   playout_run example_calls (LockstepPlayoutDelayBuffer_init, []) =
     Inr (\<lparr>stopped = False, start_time = 0, most_recent_input = 6, frame = 4,
           input_queue = [14, 15]\<rparr>, [10, 11, 12, 13]) \<and>
   (\<exists>b emitted.
      playout_run (map tagged_call example_calls) (LockstepPlayoutDelayBuffer_init, []) =
        Inr (b, emitted) \<and>
      map fst (emitted @ input_queue b) = map of_nat [0..<length emitted + length (input_queue b)])"
proof -
  have v: "list_all valid_call example_calls"
    by (simp add: example_calls_def)
  have ft: "frame_time 0 0 \<le> 1" "frame_time 0 1 \<le> 1" "frame_time 0 2 \<le> 1" "frame_time 0 3 \<le> 1"
    by (simp_all add: frame_time_value fp_eval)
  have r: "playout_run example_calls (LockstepPlayoutDelayBuffer_init, []) =
     Inr (\<lparr>stopped = False, start_time = 0, most_recent_input = 6, frame = 4,
           input_queue = [14, 15]\<rparr>, [10, 11, 12, 13])"
    using ft
    by (simp add: example_calls_def LockstepPlayoutDelayBuffer_init_def bind_fault_def
          AddInputs_def AddInputs_body_def GetFrames_def frame_due_iff
          Let_def upt_rec GetFrames_loop_unfold)
  show ?thesis
    using playout_sequence_contiguous [of "[]" 0 LockstepPlayoutDelayBuffer_init 0 example_calls] v r
    by blast
qed

subsection \<open>Serialization of input packets\<close>

lemma bit_length_bound: "n < 2 ^ bit_length n"
proof (induction n rule: bit_length.induct)
  case (1 n)
  show ?case
  proof (cases "n = 0")
    case True
    then show ?thesis by simp
  next
    case False
    then have "n div 2 < 2 ^ bit_length (n div 2)" using 1 by simp
    then have "n < 2 * 2 ^ bit_length (n div 2)" by linarith
    then show ?thesis using False by (subst bit_length.simps) simp
  qed
qed

lemma bits_required_MaxInputs: "bits_required 0 MaxInputs = 9"
  by (simp add: bits_required_def MaxInputs_def)

lemma read_write_bits:
  assumes "v < 2 ^ n"
  shows "read_bits n (write_bits n v @ rest) = Some (v, rest)"
proof -
  have "horner_sum of_bool 2 (map (bit v) [0..<n]) = take_bit n v"
    by (rule horner_sum_bit_eq_take_bit)
  also have "\<dots> = v" using assms by (simp add: take_bit_nat_eq_self)
  finally show ?thesis
    by (simp add: read_bits_def write_bits_def)
qed

lemma read_write_bool: "read_bool (write_bool v @ rest) = Some (v, rest)"
  by (simp add: read_bool_def write_bool_def)

lemma read_write_uint16: "read_uint16 (write_uint16 v @ rest) = Some (v, rest)"
proof -
  have "unat v < 2 ^ 16" using unsigned_less [of v] by simp
  then show ?thesis
    by (simp add: read_uint16_def write_uint16_def read_write_bits)
qed

lemma read_write_int:
  assumes "lo \<le> v" and "v \<le> hi"
  shows "\<exists>s. write_int lo hi v = Some s \<and> length s = bits_required lo hi \<and>
             read_int lo hi (s @ rest) = Some (v, rest)"
proof -
  have "nat (v - lo) \<le> nat (hi - lo)" using assms by simp
  also have "\<dots> < 2 ^ bits_required lo hi"
    unfolding bits_required_def by (rule bit_length_bound)
  finally have "nat (v - lo) < 2 ^ bits_required lo hi" .
  then have "read_bits (bits_required lo hi) (write_bits (bits_required lo hi) (nat (v - lo)) @ rest)
             = Some (nat (v - lo), rest)"
    by (rule read_write_bits)
  moreover have "length (write_bits (bits_required lo hi) (nat (v - lo))) = bits_required lo hi"
    by (simp add: write_bits_def)
  ultimately show ?thesis
    using assms by (simp add: write_int_def read_int_def)
qed

lemma read_write_Input: "read_Input (write_Input x @ rest) = Some (x, rest)"
  by (cases x) (simp add: read_Input_def write_Input_def read_bool_def write_bool_def)

lemma length_write_Input: "length (write_Input x) = 6"
  by (simp add: write_Input_def write_bool_def)


lemma SerializeWrite_body_append:
  "SerializeWrite_body xs s i = s @ SerializeWrite_body xs [] i"
  by (simp add: SerializeWrite_body_def Let_def)

lemma SerializeWrite_fold_append:
  "foldl (SerializeWrite_body xs) s is = s @ foldl (SerializeWrite_body xs) [] is"
proof (induction "is" arbitrary: s)
  case Nil
  show ?case by simp
next
  case (Cons i "is")
  show ?case
    using Cons.IH [of "SerializeWrite_body xs s i"] Cons.IH [of "SerializeWrite_body xs [] i"]
      SerializeWrite_body_append [of xs s i]
    by simp
qed

lemma length_SerializeWrite_body: "length (SerializeWrite_body xs [] i) \<le> 7"
  by (simp add: SerializeWrite_body_def Let_def write_bool_def length_write_Input)

lemma length_SerializeWrite_fold:
  "length (foldl (SerializeWrite_body xs) s is) \<le> length s + 7 * length is"
proof (induction "is" arbitrary: s)
  case Nil
  show ?case by simp
next
  case (Cons i "is")
  have "length (SerializeWrite_body xs s i) \<le> length s + 7"
    using length_SerializeWrite_body [of xs i] SerializeWrite_body_append [of xs s i]
    by (metis add_le_cancel_left length_append)
  then show ?case
    using Cons.IH [of "SerializeWrite_body xs s i"] by simp
qed

lemma SerializeRead_body_step:
  assumes "0 < i" and "i < length xs" and "i < length ys"
    and "take i ys = take i xs"
  shows "\<exists>ys'. SerializeRead_body (Some (SerializeWrite_body xs [] i @ rest, ys)) i = Some (rest, ys') \<and>
          length ys' = length ys \<and> take (Suc i) ys' = take (Suc i) xs"
proof -
  have prev: "ys ! (i - 1) = xs ! (i - 1)"
    using assms by (metis diff_less nth_take zero_less_one)
  have t: "\<And>v. take (Suc i) (ys[i := v]) = take i xs @ [v]"
    using assms by (simp add: take_Suc_conv_app_nth)
  have x: "take (Suc i) xs = take i xs @ [xs ! i]"
    using assms by (simp add: take_Suc_conv_app_nth)
  show ?thesis
  proof (cases "xs ! i \<noteq> xs ! (i - 1)")
    case True
    then show ?thesis
      using t x
      by (simp add: SerializeRead_body_def SerializeWrite_body_def read_write_bool
            read_write_Input Let_def)
  next
    case False
    then show ?thesis
      using t x prev
      by (simp add: SerializeRead_body_def SerializeWrite_body_def read_write_bool Let_def)
  qed
qed

lemma SerializeRead_fold:
  assumes "0 < k" and "n \<le> length xs" and "n \<le> length ys" and "take k ys = take k xs" and "k \<le> n"
  shows "\<exists>ys'. foldl SerializeRead_body
                 (Some (foldl (SerializeWrite_body xs) [] [k..<n] @ rest, ys)) [k..<n] =
               Some (rest, ys') \<and>
          length ys' = length ys \<and> take n ys' = take n xs"
  using assms(2,3,5)
proof (induction n arbitrary: rest)
  case 0
  then show ?case using assms(1) by simp
next
  case (Suc n)
  show ?case
  proof (cases "k \<le> n")
    case False
    then have "k = Suc n" using Suc.prems by simp
    then show ?thesis using assms(4) by simp
  next
    case True
    let ?d = "SerializeWrite_body xs [] n"
    have w: "foldl (SerializeWrite_body xs) [] [k..<Suc n] =
             foldl (SerializeWrite_body xs) [] [k..<n] @ ?d"
      using True SerializeWrite_body_append [of xs "foldl (SerializeWrite_body xs) [] [k..<n]" n]
      by simp
    from Suc.IH [of "?d @ rest"] True Suc.prems obtain ys1 where ys1:
      "foldl SerializeRead_body
         (Some (foldl (SerializeWrite_body xs) [] [k..<n] @ ?d @ rest, ys)) [k..<n] =
       Some (?d @ rest, ys1)" "length ys1 = length ys" "take n ys1 = take n xs"
      by auto
    have "0 < n" using True assms(1) by simp
    from SerializeRead_body_step [OF this, of xs ys1 rest] Suc.prems ys1(2,3)
    obtain ys' where ys': "SerializeRead_body (Some (?d @ rest, ys1)) n = Some (rest, ys')"
      "length ys' = length ys1" "take (Suc n) ys' = take (Suc n) xs"
      by auto
    have "foldl SerializeRead_body
            (Some (foldl (SerializeWrite_body xs) [] [k..<Suc n] @ rest, ys)) [k..<Suc n] =
          SerializeRead_body
            (foldl SerializeRead_body
               (Some (foldl (SerializeWrite_body xs) [] [k..<n] @ ?d @ rest, ys)) [k..<n]) n"
      unfolding w using True by simp
    also have "\<dots> = Some (rest, ys')"
      unfolding ys1(1) by (rule ys'(1))
    finally show ?thesis
      using ys1(2) ys'(2,3) by simp
  qed
qed


lemma length_write_uint16: "length (write_uint16 v) = 16"
  by (simp add: write_uint16_def write_bits_def)

lemma serialize_roundtrip:
  assumes v: "valid_packet p" and l0: "int (length (inputs p0)) = MaxInputs"
  shows "\<exists>s p'. SerializeWrite p = Some s \<and> length s \<le> 8 * MaxPacketSize \<and>
           SerializeRead p0 (s @ rest) = Some p' \<and>
           sequence p' = sequence p \<and> num_inputs p' = num_inputs p \<and>
           length (inputs p') = length (inputs p0) \<and>
           take (nat (num_inputs p)) (inputs p') = take (nat (num_inputs p)) (inputs p)"
proof -
  let ?n = "num_inputs p"
  let ?xs = "inputs p"
  have n: "0 \<le> ?n" "?n \<le> MaxInputs" and lx: "int (length ?xs) = MaxInputs"
    using v by (simp_all add: valid_packet_def)
  obtain c where c: "write_int 0 MaxInputs ?n = Some c" "length c = 9"
    using read_write_int [OF n] by (auto simp: bits_required_MaxInputs)
  have rc: "\<And>r. read_int 0 MaxInputs (c @ r) = Some (?n, r)"
    using read_write_int [OF n] c(1) by auto
  have ln: "\<not> ?n > int (length (inputs p0))"
    using n l0 by simp
  show ?thesis
  proof (cases "?n \<ge> 1")
    case False
    then have z: "?n = 0" using n by simp
    have w: "SerializeWrite p = Some (write_uint16 (sequence p) @ c)"
      using False by (simp add: SerializeWrite_def c)
    have "SerializeRead p0 ((write_uint16 (sequence p) @ c) @ rest) =
            Some \<lparr>sequence = sequence p, num_inputs = ?n, inputs = inputs p0\<rparr>"
      using False ln
      by (simp add: SerializeRead_def read_write_uint16 rc)
    then show ?thesis
      using w z by (simp add: length_write_uint16 c(2) MaxPacketSize_def)
  next
    case True
    let ?m = "nat ?n"
    let ?h = "write_uint16 (sequence p) @ c @ write_Input (?xs ! 0)"
    let ?t = "foldl (SerializeWrite_body ?xs) [] [Suc 0..<?m]"
    let ?ys = "(inputs p0)[0 := ?xs ! 0]"
    have w: "SerializeWrite p = Some (?h @ ?t)"
      using True SerializeWrite_fold_append [of ?xs ?h "[Suc 0..<?m]"]
      by (simp add: SerializeWrite_def c)
    have m: "1 \<le> ?m" "?m \<le> length ?xs" "?m \<le> length ?ys"
      using True n lx l0 by simp_all
    have t1: "take (Suc 0) ?ys = take (Suc 0) ?xs"
      using m by (cases "inputs p0"; cases ?xs) simp_all
    from SerializeRead_fold [of "Suc 0" ?m ?xs ?ys rest] m t1
    obtain ys' where ys': "foldl SerializeRead_body (Some (?t @ rest, ?ys)) [Suc 0..<?m] = Some (rest, ys')"
      "length ys' = length ?ys" "take ?m ys' = take ?m ?xs"
      by auto
    have r: "SerializeRead p0 ((?h @ ?t) @ rest) =
               Some \<lparr>sequence = sequence p, num_inputs = ?n, inputs = ys'\<rparr>"
      using True ln
      by (simp add: SerializeRead_def read_write_uint16 rc read_write_Input ys'(1))
    have "length ?t \<le> 7 * length [Suc 0..<?m]"
      using length_SerializeWrite_fold [of ?xs "[]" "[Suc 0..<?m]"] by simp
    also have "\<dots> \<le> 7 * 255"
      using n by (simp add: MaxInputs_def)
    finally have "length (?h @ ?t) \<le> 8 * MaxPacketSize"
      by (simp add: length_write_uint16 c(2) length_write_Input MaxPacketSize_def)
    then show ?thesis
      using w r ys'(2,3) by simp
  qed
qed


lemma SerializeWrite_fold_concat:
  "foldl (SerializeWrite_body xs) [] is =
   concat (map (\<lambda>i. if xs ! i = xs ! (i - 1) then [False] else True # write_Input (xs ! i)) is)"
proof (induction "is" rule: rev_induct)
  case Nil
  show ?case by simp
next
  case (snoc i "is")
  show ?case
    using snoc.IH SerializeWrite_body_append [of xs "foldl (SerializeWrite_body xs) [] is" i]
    by (simp add: SerializeWrite_body_def write_bool_def Let_def)
qed

lemma SerializeWrite_compressed:
  assumes "write_int 0 MaxInputs (num_inputs p) = Some c"
  shows "SerializeWrite p =
         Some (write_uint16 (sequence p) @ c @ compressed_inputs (inputs p) (nat (num_inputs p)))"
proof (cases "num_inputs p \<ge> 1")
  case False
  then show ?thesis by (simp add: SerializeWrite_def assms compressed_inputs_def)
next
  case True
  then show ?thesis
    using SerializeWrite_fold_append
            [of "inputs p" "write_uint16 (sequence p) @ c @ write_Input (inputs p ! 0)"
               "[Suc 0..<nat (num_inputs p)]"]
    by (simp add: SerializeWrite_def assms compressed_inputs_def SerializeWrite_fold_concat)
qed

text \<open>
  Claim C8. For every valid input packet (count within \<open>0 .. MaxInputs\<close>), writing
  it gives the stream of the compressed encoding: the sequence number, the count in 9
  bits, the first input in full and each further input as one changed bit followed, when
  set, by the input in full. The stream fits the buffer of \<open>MaxPacketSize\<close> bytes, and
  reading it back into a newly created packet, whatever that packet's array holds and
  whatever follows the stream in the buffer, succeeds and gives a packet with the same
  sequence number, the same count and the same inputs below the count.
\<close>

theorem LockstepInputPacket_roundtrip:
  "valid_packet p \<and> int (length fresh_inputs) = MaxInputs \<longrightarrow>
   (\<exists>c s p'.
      write_int 0 MaxInputs (num_inputs p) = Some c \<and> length c = 9 \<and>
      s = write_uint16 (sequence p) @ c @ compressed_inputs (inputs p) (nat (num_inputs p)) \<and>
      SerializeWrite p = Some s \<and> length s \<le> 8 * MaxPacketSize \<and>
      SerializeRead \<lparr>sequence = 0, num_inputs = 0, inputs = fresh_inputs\<rparr> (s @ rest) = Some p' \<and>
      sequence p' = sequence p \<and> num_inputs p' = num_inputs p \<and>
      take (nat (num_inputs p)) (inputs p') = take (nat (num_inputs p)) (inputs p))"
proof (intro impI, elim conjE)
  assume v: "valid_packet p" and l: "int (length fresh_inputs) = MaxInputs"
  let ?p0 = "\<lparr>sequence = 0, num_inputs = 0, inputs = fresh_inputs\<rparr>"
  have n: "0 \<le> num_inputs p" "num_inputs p \<le> MaxInputs"
    using v by (simp_all add: valid_packet_def)
  obtain c where c: "write_int 0 MaxInputs (num_inputs p) = Some c" "length c = 9"
    using read_write_int [OF n] by (auto simp: bits_required_MaxInputs)
  from serialize_roundtrip [of p ?p0 rest] v l
  obtain s p' where r: "SerializeWrite p = Some s" "length s \<le> 8 * MaxPacketSize"
    "SerializeRead ?p0 (s @ rest) = Some p'" "sequence p' = sequence p"
    "num_inputs p' = num_inputs p"
    "take (nat (num_inputs p)) (inputs p') = take (nat (num_inputs p)) (inputs p)"
    by auto
  have "s = write_uint16 (sequence p) @ c @ compressed_inputs (inputs p) (nat (num_inputs p))"
    using r(1) SerializeWrite_compressed [OF c(1)] by simp
  then show "\<exists>c s p'.
      write_int 0 MaxInputs (num_inputs p) = Some c \<and> length c = 9 \<and>
      s = write_uint16 (sequence p) @ c @ compressed_inputs (inputs p) (nat (num_inputs p)) \<and>
      SerializeWrite p = Some s \<and> length s \<le> 8 * MaxPacketSize \<and>
      SerializeRead ?p0 (s @ rest) = Some p' \<and>
      sequence p' = sequence p \<and> num_inputs p' = num_inputs p \<and>
      take (nat (num_inputs p)) (inputs p') = take (nat (num_inputs p)) (inputs p)"
    using c r by blast
qed

theorem LockstepInputPacket_roundtrip_witness:
  "valid_packet example_packet \<and>
   (\<exists>s p'. SerializeWrite example_packet = Some s \<and>
      SerializeRead \<lparr>sequence = 0, num_inputs = 0,
                     inputs = replicate 256 (Input True True True True True True)\<rparr> (s @ []) = Some p' \<and>
      sequence p' = 513 \<and> num_inputs p' = 3 \<and>
      take 3 (inputs p') =
        [Input True False False False False False, Input True False False False False False,
         Input False True False False True False])"
proof -
  have v: "valid_packet example_packet"
    by (simp add: valid_packet_def example_packet_def MaxInputs_def)
  have l: "int (length (replicate 256 (Input True True True True True True))) = MaxInputs"
    by (simp add: MaxInputs_def)
  show ?thesis
    using LockstepInputPacket_roundtrip
            [of example_packet "replicate 256 (Input True True True True True True)" "[]"] v l
    by (auto simp: example_packet_def)
qed

subsection \<open>Acks of the lockstep receiver\<close>

lemma serialize_write_then_read_INPUT:
  assumes "valid_packet p" and "int (length fresh_inputs) = MaxInputs"
  shows "\<exists>p'. serialize_write_then_read fresh_inputs rest (LOCKSTEP_PACKET_INPUT p) =
                Inr (LOCKSTEP_PACKET_INPUT p') \<and>
              sequence p' = sequence p \<and> num_inputs p' = num_inputs p \<and>
              int (length (inputs p')) = MaxInputs"
proof -
  from serialize_roundtrip [of p "\<lparr>sequence = 0, num_inputs = 0, inputs = fresh_inputs\<rparr>" rest] assms
  obtain s p' where "SerializeWrite p = Some s" "length s \<le> 8 * MaxPacketSize"
    "SerializeRead \<lparr>sequence = 0, num_inputs = 0, inputs = fresh_inputs\<rparr> (s @ rest) = Some p'"
    "sequence p' = sequence p" "num_inputs p' = num_inputs p"
    "length (inputs p') = length fresh_inputs"
    by auto
  then show ?thesis
    using assms(2) by (simp add: serialize_write_then_read_def)
qed

lemma serialize_write_then_read_ACK:
  "serialize_write_then_read fresh_inputs rest (LOCKSTEP_PACKET_ACK a) = Inr (LOCKSTEP_PACKET_ACK a)"
  by (simp add: serialize_write_then_read_def read_write_uint16)

lemma AddInputs_returns:
  assumes "0 < n" and "n \<le> int (length xs)"
  shows "\<exists>b'. AddInputs t sq n xs b = Inr b'"
  using assms by (simp add: AddInputs_def Let_def)

lemma Update_receive_body_ack:
  assumes "valid_received received" and "int (length fresh_inputs) = MaxInputs"
  shows "\<exists>st'. Update_receive_body tcp_mode window_Ack t fresh_inputs rest st received = Inr st' \<and>
           (received_input_this_frame st', ack_sequence st') =
             (if tcp_mode then (received_input_this_frame st, ack_sequence st)
              else foldl ack_step (received_input_this_frame st, ack_sequence st)
                     (input_sequences [received]))"
proof (cases received)
  case (Pair port packet)
  show ?thesis
  proof (cases packet)
    case (LOCKSTEP_PACKET_ACK a)
    then show ?thesis
      using Pair
      by (simp add: Update_receive_body_def serialize_write_then_read_ACK bind_fault_def)
  next
    case (LOCKSTEP_PACKET_INPUT p)
    then have v: "valid_packet p" and n1: "port = RightPort \<Longrightarrow> 1 \<le> num_inputs p"
      using assms(1) Pair by (simp_all split: if_splits)
    from serialize_write_then_read_INPUT [OF v assms(2), of rest]
    obtain p' where p': "serialize_write_then_read fresh_inputs rest (LOCKSTEP_PACKET_INPUT p) =
                           Inr (LOCKSTEP_PACKET_INPUT p')"
      "sequence p' = sequence p" "num_inputs p' = num_inputs p"
      "int (length (inputs p')) = MaxInputs"
      by blast
    show ?thesis
    proof (cases "port = RightPort")
      case False
      then show ?thesis
        using Pair LOCKSTEP_PACKET_INPUT p'
        by (simp add: Update_receive_body_def bind_fault_def)
    next
      case True
      have le: "num_inputs p' \<le> int (length (inputs p'))"
        using v p'(3,4) by (simp add: valid_packet_def)
      have pos: "0 < num_inputs p'" using n1 [OF True] p'(3) by simp
      have add: "\<And>b. \<exists>b'. AddInputs t (sequence p') (num_inputs p') (inputs p') b = Inr b'"
        using AddInputs_returns [OF pos le] by blast
      show ?thesis
      proof (cases tcp_mode)
        case tcp: True
        obtain b' where "AddInputs t (sequence p') (num_inputs p') (inputs p')
                           (playout_delay_buffer st) = Inr b'"
          using add by blast
        then show ?thesis
          using Pair LOCKSTEP_PACKET_INPUT p' True tcp
          by (simp add: Update_receive_body_def bind_fault_def)
      next
        case udp: False
        define st1 where "st1 =
          (if \<not> received_input_this_frame st
           then st\<lparr>received_input_this_frame := True, ack_sequence := sequence p' - 1\<rparr>
           else if sequence_greater_than (sequence p' - 1) (ack_sequence st)
           then st\<lparr>ack_sequence := sequence p' - 1\<rparr>
           else st)"
        obtain b' where b': "AddInputs t (sequence p') (num_inputs p') (inputs p')
                           (playout_delay_buffer st1) = Inr b'"
          using add by blast
        have body: "Update_receive_body tcp_mode window_Ack t fresh_inputs rest st received =
                    Inr (st1\<lparr>playout_delay_buffer := b'\<rparr>)"
          using Pair LOCKSTEP_PACKET_INPUT p'(1) True udp b'
          by (simp add: Update_receive_body_def bind_fault_def st1_def Let_def)
        have "(received_input_this_frame st1, ack_sequence st1) =
              ack_step (received_input_this_frame st, ack_sequence st) (sequence p)"
          by (simp add: st1_def ack_step_def p'(2))
        then show ?thesis
          using body udp Pair LOCKSTEP_PACKET_INPUT True by simp
      qed
    qed
  qed
qed

lemma input_sequences_Cons:
  "input_sequences (received # queue) = input_sequences [received] @ input_sequences queue"
  by (cases received; cases "snd received") auto

lemma Update_receive_loop_ack:
  assumes "list_all valid_received queue" and "int (length fresh_inputs) = MaxInputs"
  shows "\<exists>st'. Update_receive_loop tcp_mode window_Ack t fresh_inputs rest queue st = Inr st' \<and>
           (received_input_this_frame st', ack_sequence st') =
             (if tcp_mode then (received_input_this_frame st, ack_sequence st)
              else foldl ack_step (received_input_this_frame st, ack_sequence st)
                     (input_sequences queue))"
  using assms(1)
proof (induction queue arbitrary: st)
  case Nil
  show ?case by simp
next
  case (Cons received queue)
  from Update_receive_body_ack [of received fresh_inputs tcp_mode window_Ack t rest st]
    Cons.prems assms(2)
  obtain st1 where st1:
    "Update_receive_body tcp_mode window_Ack t fresh_inputs rest st received = Inr st1"
    "(received_input_this_frame st1, ack_sequence st1) =
       (if tcp_mode then (received_input_this_frame st, ack_sequence st)
        else foldl ack_step (received_input_this_frame st, ack_sequence st)
               (input_sequences [received]))"
    by auto
  from Cons.IH [of st1] Cons.prems
  obtain st' where st':
    "Update_receive_loop tcp_mode window_Ack t fresh_inputs rest queue st1 = Inr st'"
    "(received_input_this_frame st', ack_sequence st') =
       (if tcp_mode then (received_input_this_frame st1, ack_sequence st1)
        else foldl ack_step (received_input_this_frame st1, ack_sequence st1)
               (input_sequences queue))"
    by auto
  have "Update_receive_loop tcp_mode window_Ack t fresh_inputs rest (received # queue) st = Inr st'"
    using st1(1) st'(1) by (simp add: bind_fault_def)
  moreover have "(received_input_this_frame st', ack_sequence st') =
             (if tcp_mode then (received_input_this_frame st, ack_sequence st)
              else foldl ack_step (received_input_this_frame st, ack_sequence st)
                     (input_sequences (received # queue)))"
    using st1(2) st'(2)
    by (subst input_sequences_Cons) (simp split: if_splits)
  ultimately show ?case by blast
qed

lemma foldl_ack_step_True:
  "foldl ack_step (True, a) ss =
   (True, foldl (\<lambda>ack s'. if sequence_greater_than (s' - 1) ack then s' - 1 else ack) a ss)"
  by (induction ss arbitrary: a) (simp_all add: ack_step_def)

lemma foldl_ack_step_init:
  "foldl ack_step (False, 0) ss = (ss \<noteq> [], retained_ack ss)"
  by (cases ss) (simp_all add: foldl_ack_step_True, simp add: ack_step_def foldl_ack_step_True)

lemma Update_receive_sent:
  assumes "list_all valid_received queue" and "int (length fresh_inputs) = MaxInputs"
  shows "\<exists>st. Update_receive tcp_mode window_Ack t fresh_inputs rest queue buffer window =
                Inr (st, sent_acks tcp_mode queue) \<and>
              received_input_this_frame st = (\<not> tcp_mode \<and> input_sequences queue \<noteq> [])"
proof -
  let ?st0 = "\<lparr>received_input_this_frame = False, ack_sequence = 0,
               playout_delay_buffer = buffer, input_sliding_window = window\<rparr>"
  from Update_receive_loop_ack [OF assms, of tcp_mode window_Ack t rest ?st0]
  obtain st where st: "Update_receive_loop tcp_mode window_Ack t fresh_inputs rest queue ?st0 = Inr st"
    "(received_input_this_frame st, ack_sequence st) =
       (if tcp_mode then (False, 0) else foldl ack_step (False, 0) (input_sequences queue))"
    by auto
  have "received_input_this_frame st = (\<not> tcp_mode \<and> input_sequences queue \<noteq> [])"
    "\<not> tcp_mode \<Longrightarrow> ack_sequence st = retained_ack (input_sequences queue)"
    using st(2) by (auto simp: foldl_ack_step_init split: if_splits)
  then show ?thesis
    using st(1) by (auto simp: Update_receive_def bind_fault_def sent_acks_def)
qed


lemma uint_less_of_unat_less:
  fixes u :: "16 word"
  assumes "unat u < 32768"
  shows "- 32768 \<le> uint u" and "uint u < 32768"
proof -
  have "uint u = int (unat u)" by simp
  then show "uint u < 32768" using assms by linarith
  have "0 \<le> uint u" by simp
  then show "- 32768 \<le> uint u" by linarith
qed

lemma sint_diff_small:
  fixes u v :: "16 word"
  assumes "unat u < 32768" and "unat v < 32768"
  shows "sint (u - v) = uint u - uint v"
proof -
  note bu = uint_less_of_unat_less [OF assms(1)]
  note bv = uint_less_of_unat_less [OF assms(2)]
  have u: "sint u = uint u"
    unfolding sint_uint using bu by (intro signed_take_bit_int_eq_self) simp_all
  have v: "sint v = uint v"
    unfolding sint_uint using bv by (intro signed_take_bit_int_eq_self) simp_all
  have "sint (u - v) = signed_take_bit 15 (sint u - sint v)"
    by (simp add: sint_word_diff)
  also have "\<dots> = sint u - sint v"
  proof -
    have "- 32768 \<le> uint u - uint v"
      using bv uint_ge_0 [of u] by linarith
    moreover have "uint u - uint v < 32768"
      using bu uint_ge_0 [of v] by linarith
    ultimately have "- (2 ^ 15) \<le> uint u - uint v" "uint u - uint v < 2 ^ 15"
      by simp_all
    then show ?thesis
      unfolding u v by (rule signed_take_bit_int_eq_self)
  qed
  finally show ?thesis by (simp only: u v)
qed

lemma sequence_greater_than_window:
  assumes "unat (c1 - base) < 32768" and "unat (c2 - base) < 32768"
  shows "sequence_greater_than c1 c2 \<longleftrightarrow> unat (c2 - base) < unat (c1 - base)"
proof -
  have "c1 - c2 = (c1 - base) - (c2 - base)" by simp
  then have "sint (c1 - c2) = uint (c1 - base) - uint (c2 - base)"
    using sint_diff_small [OF assms] by simp
  then have "sequence_greater_than c1 c2 \<longleftrightarrow> uint (c2 - base) < uint (c1 - base)"
    by (simp add: sequence_greater_than_def)
  also have "\<dots> \<longleftrightarrow> c2 - base < c1 - base"
    by (simp only: word_less_alt)
  also have "\<dots> \<longleftrightarrow> unat (c2 - base) < unat (c1 - base)"
    by (simp only: word_less_nat_alt)
  finally show ?thesis .
qed

lemma retained_fold_window:
  assumes "unat (a - base) < 32768" and "list_all (\<lambda>s. unat (s - 1 - base) < 32768) ss"
  shows "unat (foldl (\<lambda>ack s'. if sequence_greater_than (s' - 1) ack then s' - 1 else ack) a ss - base) < 32768 \<and>
         (foldl (\<lambda>ack s'. if sequence_greater_than (s' - 1) ack then s' - 1 else ack) a ss = a \<or>
          foldl (\<lambda>ack s'. if sequence_greater_than (s' - 1) ack then s' - 1 else ack) a ss
            \<in> (\<lambda>s. s - 1) ` set ss) \<and>
         unat (a - base) \<le>
           unat (foldl (\<lambda>ack s'. if sequence_greater_than (s' - 1) ack then s' - 1 else ack) a ss - base) \<and>
         (\<forall>s \<in> set ss. unat (s - 1 - base) \<le>
           unat (foldl (\<lambda>ack s'. if sequence_greater_than (s' - 1) ack then s' - 1 else ack) a ss - base))"
  using assms
proof (induction ss arbitrary: a)
  case Nil
  then show ?case by simp
next
  case (Cons s ss)
  let ?f = "\<lambda>ack s'. if sequence_greater_than (s' - 1) ack then s' - 1 else ack"
  let ?a1 = "?f a s"
  have s: "unat (s - 1 - base) < 32768" and ss: "list_all (\<lambda>s. unat (s - 1 - base) < 32768) ss"
    using Cons.prems(2) by simp_all
  have gt: "sequence_greater_than (s - 1) a \<longleftrightarrow> unat (a - base) < unat (s - 1 - base)"
    by (rule sequence_greater_than_window [OF s Cons.prems(1)])
  have a1: "unat (?a1 - base) < 32768" using s Cons.prems(1) by simp
  have le: "unat (a - base) \<le> unat (?a1 - base)" "unat (s - 1 - base) \<le> unat (?a1 - base)"
    using gt by auto
  have mem: "?a1 = a \<or> ?a1 = s - 1" by simp
  from Cons.IH [OF a1 ss] le mem show ?case
    by (simp only: foldl_Cons list.set image_insert) (use le mem in auto)
qed

lemma retained_ack_window:
  assumes "within_half_window base ss" and "ss \<noteq> []"
  shows "retained_ack ss \<in> (\<lambda>s. s - 1) ` set ss \<and>
         list_all (\<lambda>s. \<not> sequence_greater_than (s - 1) (retained_ack ss) \<and>
                       (s - 1 = retained_ack ss \<or> sequence_greater_than (retained_ack ss) (s - 1))) ss"
proof -
  obtain s0 ss0 where ss: "ss = s0 # ss0" using assms(2) by (cases ss) auto
  let ?r = "retained_ack ss"
  have w: "unat (s0 - 1 - base) < 32768" "list_all (\<lambda>s. unat (s - 1 - base) < 32768) ss0"
    using assms(1) ss by (simp_all add: within_half_window_def)
  from retained_fold_window [OF w] have r:
    "unat (?r - base) < 32768" "?r = s0 - 1 \<or> ?r \<in> (\<lambda>s. s - 1) ` set ss0"
    "unat (s0 - 1 - base) \<le> unat (?r - base)"
    "\<forall>s \<in> set ss0. unat (s - 1 - base) \<le> unat (?r - base)"
    unfolding ss by simp_all
  have all: "\<not> sequence_greater_than (s - 1) ?r \<and> (s - 1 = ?r \<or> sequence_greater_than ?r (s - 1))"
    if "s \<in> set ss" for s
  proof -
    have k: "unat (s - 1 - base) < 32768"
      using that assms(1) by (simp add: within_half_window_def list_all_iff)
    have le: "unat (s - 1 - base) \<le> unat (?r - base)"
      using that r(3,4) ss by auto
    have 1: "\<not> sequence_greater_than (s - 1) ?r"
      using sequence_greater_than_window [OF k r(1)] le by simp
    have 2: "s - 1 = ?r \<or> sequence_greater_than ?r (s - 1)"
    proof (cases "unat (s - 1 - base) = unat (?r - base)")
      case True
      then have "s - 1 - base = ?r - base" by (simp add: word_unat_eq_iff)
      then show ?thesis by simp
    next
      case False
      then show ?thesis
        using sequence_greater_than_window [OF r(1) k] le by simp
    qed
    from 1 2 show ?thesis by simp
  qed
  show ?thesis
    using r(2) all unfolding ss by (auto simp: list_all_iff)
qed


lemma valid_packet_with_sequence: "valid_received (packet_with_sequence s)"
  by (simp add: packet_with_sequence_def valid_packet_def example_packet_def MaxInputs_def)

lemma input_sequences_packet_with_sequence:
  "input_sequences (packet_with_sequence s # queue) = s # input_sequences queue"
  by (simp add: packet_with_sequence_def)

lemma length_example_fresh_inputs: "int (length example_fresh_inputs) = MaxInputs"
  by (simp add: example_fresh_inputs_def MaxInputs_def)

text \<open>
  Claim C6, as stated: the ack retained over the input packets of a tick is the maximum
  of the candidates under the sequence-wrap comparison. It fails where the candidates
  span half the sequence space or more, since the comparison is then not an order: for
  packets with the sequence numbers 1, 30001 and 60001 the ack sent is 60000, and the
  candidate 0 of the first packet is greater than 60000 under the comparison.
\<close>

theorem retained_ack_not_maximum:
  "map_sum id snd
     (Update_receive False no_window_Ack 0 example_fresh_inputs [] wrapped_queue
        LockstepPlayoutDelayBuffer_init ()) =
     Inr [(LeftPort, LOCKSTEP_PACKET_ACK 60000)] \<and>
   sequence_greater_than (1 - 1) 60000"
proof -
  have v: "list_all valid_received wrapped_queue"
    by (simp add: wrapped_queue_def valid_packet_with_sequence)
  have s: "input_sequences wrapped_queue = [1, 30001, 60001]"
    by (simp add: wrapped_queue_def input_sequences_packet_with_sequence)
  from Update_receive_sent [OF v length_example_fresh_inputs, of False no_window_Ack 0 "[]"
      LockstepPlayoutDelayBuffer_init "()"]
  show ?thesis
    by (auto simp: sent_acks_def s sequence_greater_than_def)
qed

text \<open>
  Claim C6, amended. For valid received packets the tick completes and sends what the
  spec's words give: one ack packet to the left port iff at least one input packet for
  the right simulation was received and the transport is not in TCP mode, none otherwise;
  the ack it carries is the candidate (sequence number minus one) of the first input
  packet, replaced by the candidate of each later one that is greater than the ack
  retained so far. Whenever the candidates of the tick lie within a window of fewer than
  32768 sequence numbers, that ack is one of the candidates, no candidate is greater
  than it and it is greater than every other candidate.
\<close>

theorem receiver_ack:
  "list_all valid_received queue \<and> int (length fresh_inputs) = MaxInputs \<longrightarrow>
   (\<exists>st. Update_receive tcp_mode window_Ack t fresh_inputs rest queue buffer window =
            Inr (st, sent_acks tcp_mode queue)) \<and>
   (sent_acks tcp_mode queue = [] \<longleftrightarrow> tcp_mode \<or> input_sequences queue = []) \<and>
   length (sent_acks tcp_mode queue) \<le> 1 \<and>
   (input_sequences queue \<noteq> [] \<and> within_half_window base (input_sequences queue) \<longrightarrow>
      retained_ack (input_sequences queue) \<in> (\<lambda>s. s - 1) ` set (input_sequences queue) \<and>
      list_all (\<lambda>s. \<not> sequence_greater_than (s - 1) (retained_ack (input_sequences queue)) \<and>
                    (s - 1 = retained_ack (input_sequences queue) \<or>
                     sequence_greater_than (retained_ack (input_sequences queue)) (s - 1)))
        (input_sequences queue))"
proof (intro impI, elim conjE)
  assume v: "list_all valid_received queue" and l: "int (length fresh_inputs) = MaxInputs"
  have 1: "\<exists>st. Update_receive tcp_mode window_Ack t fresh_inputs rest queue buffer window =
            Inr (st, sent_acks tcp_mode queue)"
    using Update_receive_sent [OF v l, of tcp_mode window_Ack t rest buffer window] by blast
  have 2: "sent_acks tcp_mode queue = [] \<longleftrightarrow> tcp_mode \<or> input_sequences queue = []"
    "length (sent_acks tcp_mode queue) \<le> 1"
    by (simp_all add: sent_acks_def)
  have 3: "retained_ack (input_sequences queue) \<in> (\<lambda>s. s - 1) ` set (input_sequences queue) \<and>
      list_all (\<lambda>s. \<not> sequence_greater_than (s - 1) (retained_ack (input_sequences queue)) \<and>
                    (s - 1 = retained_ack (input_sequences queue) \<or>
                     sequence_greater_than (retained_ack (input_sequences queue)) (s - 1)))
        (input_sequences queue)"
    if "input_sequences queue \<noteq> []" "within_half_window base (input_sequences queue)"
    using retained_ack_window [OF that(2,1)] .
  show "(\<exists>st. Update_receive tcp_mode window_Ack t fresh_inputs rest queue buffer window =
            Inr (st, sent_acks tcp_mode queue)) \<and>
   (sent_acks tcp_mode queue = [] \<longleftrightarrow> tcp_mode \<or> input_sequences queue = []) \<and>
   length (sent_acks tcp_mode queue) \<le> 1 \<and>
   (input_sequences queue \<noteq> [] \<and> within_half_window base (input_sequences queue) \<longrightarrow>
      retained_ack (input_sequences queue) \<in> (\<lambda>s. s - 1) ` set (input_sequences queue) \<and>
      list_all (\<lambda>s. \<not> sequence_greater_than (s - 1) (retained_ack (input_sequences queue)) \<and>
                    (s - 1 = retained_ack (input_sequences queue) \<or>
                     sequence_greater_than (retained_ack (input_sequences queue)) (s - 1)))
        (input_sequences queue))"
    using 1 2 3 by blast
qed

theorem receiver_ack_witness:
  "list_all valid_received example_queue \<and>
   int (length example_fresh_inputs) = MaxInputs \<and>
   input_sequences example_queue = [5, 7, 6] \<and>
   within_half_window 0 (input_sequences example_queue) \<and>
   retained_ack (input_sequences example_queue) = 6 \<and>
   map_sum id snd
     (Update_receive False no_window_Ack 0 example_fresh_inputs [] example_queue
        LockstepPlayoutDelayBuffer_init ()) =
     Inr [(LeftPort, LOCKSTEP_PACKET_ACK 6)] \<and>
   map_sum id snd
     (Update_receive True no_window_Ack 0 example_fresh_inputs [] example_queue
        LockstepPlayoutDelayBuffer_init ()) = Inr []"
proof -
  have v: "list_all valid_received example_queue"
    by (simp add: example_queue_def valid_packet_with_sequence)
  have s: "input_sequences example_queue = [5, 7, 6]"
    by (simp add: example_queue_def input_sequences_packet_with_sequence)
  have w: "within_half_window 0 (input_sequences example_queue)"
    by (simp add: s within_half_window_def)
  have r: "retained_ack (input_sequences example_queue) = 6"
    by (simp add: s sequence_greater_than_def)
  show ?thesis
    using receiver_ack [of example_queue example_fresh_inputs False no_window_Ack 0 "[]"
            LockstepPlayoutDelayBuffer_init "()" 0]
          receiver_ack [of example_queue example_fresh_inputs True no_window_Ack 0 "[]"
            LockstepPlayoutDelayBuffer_init "()" 0]
          v length_example_fresh_inputs w
    by (auto simp: sent_acks_def s sequence_greater_than_def)
qed

end
